theory Spec2Isabelle
  imports Complex_Main
begin

section \<open>Python values used by the well-plan scheduler\<close>

text \<open>
  Exceptions are values: every function of the source that can raise returns
  \<open>error + 'a\<close>, with \<open>Inl\<close> for the exception. \<open>ComplexValue\<close> is not an exception: it
  marks the one place where the code goes on with a complex number (the power of a negative
  float with an exponent that is not a whole number), which a real-valued cost cannot hold.
\<close>

datatype error =
    ValueError | TypeError | KeyError | IndexError | ZeroDivisionError | FrozenInstanceError
  | ComplexValue

subsection \<open>datetime and timedelta\<close>

text \<open>
  A naive \<open>datetime\<close> is the number of microseconds since \<open>datetime.min\<close>
  (0001-01-01 00:00:00) and a \<open>timedelta\<close> is a number of microseconds, both unbounded
  integers: the range check of the standard library (years 1 to 9999) is outside the model.
  Floats are idealised as reals.
\<close>

type_synonym datetime = int
type_synonym timedelta = int

definition us_per_day :: int where
  "us_per_day = 86400000000"

definition datetime_min :: datetime where
  "datetime_min = 0"

definition timedelta_of_days :: "int \<Rightarrow> timedelta" where
  \<comment> \<open>\<open>timedelta(days=n)\<close> for an integer \<open>n\<close>\<close>
  "timedelta_of_days n = n * us_per_day"

definition round_half_even :: "real \<Rightarrow> int" where
  "round_half_even x =
     (let f = \<lfloor>x\<rfloor> in
      if x - of_int f < 1 / 2 then f
      else if 1 / 2 < x - of_int f then f + 1
      else if even f then f else f + 1)"

definition timedelta_of_float_days :: "real \<Rightarrow> timedelta" where
  \<comment> \<open>\<open>timedelta(days=x)\<close> for a float \<open>x\<close>: rounded to the nearest microsecond\<close>
  "timedelta_of_float_days x = round_half_even (x * of_int us_per_day)"

definition td_days :: "timedelta \<Rightarrow> int" where
  \<comment> \<open>the attribute \<open>timedelta.days\<close>\<close>
  "td_days d = d div us_per_day"

definition days_before_year :: "int \<Rightarrow> int" where
  \<comment> \<open>number of days before January 1 of year \<open>y\<close> in the proleptic Gregorian calendar\<close>
  "days_before_year y = (y - 1) * 365 + (y - 1) div 4 - (y - 1) div 100 + (y - 1) div 400"

definition ord2year :: "int \<Rightarrow> int" where
  \<comment> \<open>year of the day with 0-based ordinal \<open>n0\<close>, by the 400/100/4/1-year cycles\<close>
  "ord2year n0 =
     (let n400 = n0 div 146097; n = n0 mod 146097;
          n100 = n div 36524; n = n mod 36524;
          n4 = n div 1461; n = n mod 1461;
          n1 = n div 365;
          y = n400 * 400 + 1 + n100 * 100 + n4 * 4 + n1
      in if n1 = 4 \<or> n100 = 4 then y - 1 else y)"

definition year :: "datetime \<Rightarrow> int" where
  \<comment> \<open>the attribute \<open>datetime.year\<close>\<close>
  "year t = ord2year (t div us_per_day)"

definition datetime_jan1 :: "int \<Rightarrow> datetime" where
  \<comment> \<open>\<open>datetime(y, 1, 1)\<close>\<close>
  "datetime_jan1 y = days_before_year y * us_per_day"

subsection \<open>Built-in functions\<close>

definition py_sum :: "real list \<Rightarrow> real" where
  \<comment> \<open>\<open>sum(xs)\<close>: a left fold from 0\<close>
  "py_sum xs = foldl (+) 0 xs"

fun map_result :: "('a \<Rightarrow> error + 'b) \<Rightarrow> 'a list \<Rightarrow> error + 'b list" where
  \<comment> \<open>a comprehension over a function that can raise: the first exception ends it\<close>
  "map_result f [] = Inr []"
| "map_result f (x # xs) =
     (case f x of
        Inl e \<Rightarrow> Inl e
      | Inr y \<Rightarrow> (case map_result f xs of Inl e \<Rightarrow> Inl e | Inr ys \<Rightarrow> Inr (y # ys)))"

definition py_float_pow :: "real \<Rightarrow> real \<Rightarrow> error + real" where
  \<comment> \<open>\<open>x ** y\<close> on two floats: the real power for a positive base; \<open>0.0 ** y\<close> is 1 for
      \<open>y = 0\<close>, 0 for \<open>y > 0\<close> and raises ZeroDivisionError for \<open>y < 0\<close>; a negative
      base has a float power for a whole-number exponent only\<close>
  "py_float_pow x y =
     (if 0 < x then Inr (x powr y)
      else if x = 0 then
        (if y = 0 then Inr 1 else if 0 < y then Inr 0 else Inl ZeroDivisionError)
      else if of_int \<lfloor>y\<rfloor> = y then Inr (x powi \<lfloor>y\<rfloor>)
      else Inl ComplexValue)"

definition py_float_div :: "real \<Rightarrow> real \<Rightarrow> error + real" where
  \<comment> \<open>\<open>a / b\<close> on two floats\<close>
  "py_float_div a b = (if b = 0 then Inl ZeroDivisionError else Inr (a / b))"

fun py_lt :: "datetime option \<Rightarrow> datetime option \<Rightarrow> error + bool" where
  \<comment> \<open>\<open>a < b\<close> on values that are a datetime or None: None is not orderable\<close>
  "py_lt (Some a) (Some b) = Inr (a < b)"
| "py_lt _ _ = Inl TypeError"

fun min_loop :: "('a \<Rightarrow> datetime option) \<Rightarrow> 'a \<Rightarrow> 'a list \<Rightarrow> error + 'a" where
  "min_loop key best [] = Inr best"
| "min_loop key best (x # xs) =
     (case py_lt (key x) (key best) of
        Inl e \<Rightarrow> Inl e
      | Inr b \<Rightarrow> min_loop key (if b then x else best) xs)"

definition py_min_key :: "('a \<Rightarrow> datetime option) \<Rightarrow> 'a list \<Rightarrow> error + 'a" where
  \<comment> \<open>\<open>min(xs, key=key)\<close>: the first item is the running minimum, each later item's key
      is compared with the running minimum's key; an empty iterable raises ValueError\<close>
  "py_min_key key xs = (case xs of [] \<Rightarrow> Inl ValueError | x # rest \<Rightarrow> min_loop key x rest)"

section \<open>Core data model (core/task.py, core/team.py, core/well.py, core/plan.py)\<close>

datatype Task = DRILLING | GTM

fun duration :: "Task \<Rightarrow> timedelta" where
  "duration DRILLING = timedelta_of_days 30"
| "duration GTM = timedelta_of_days 20"

fun task_name_lower :: "Task \<Rightarrow> string" where
  \<comment> \<open>\<open>task.name.lower()\<close>\<close>
  "task_name_lower DRILLING = ''drilling''"
| "task_name_lower GTM = ''gtm''"

record Team =
  team_id :: nat
  supported_tasks :: "Task set"

text \<open>
  \<open>TeamPool._task_teams_map\<close> is a dictionary from a task to the list of the teams that
  support it.
\<close>

type_synonym TeamPool = "Task \<rightharpoonup> Team list"

definition get_teams_for_task :: "TeamPool \<Rightarrow> Task \<Rightarrow> Team list" where
  "get_teams_for_task pool task = (case pool task of None \<Rightarrow> [] | Some ts \<Rightarrow> ts)"

definition pool_supported_tasks :: "TeamPool \<Rightarrow> Task set" where
  \<comment> \<open>the keys of the dictionary\<close>
  "pool_supported_tasks pool = set (filter (\<lambda>task. pool task \<noteq> None) [DRILLING, GTM])"

definition pool_teams :: "TeamPool \<Rightarrow> Team list" where
  \<comment> \<open>the property \<open>TeamPool.teams\<close>: every team once (a tuple built from a set, so
      in some order; the order is read nowhere)\<close>
  "pool_teams pool = remdups (get_teams_for_task pool DRILLING @ get_teams_for_task pool GTM)"

text \<open>
  The field \<open>tasks\<close> holds the value of the property \<open>Well.tasks\<close>, the tasks that the
  segments of \<open>well_type\<close> map to.
\<close>

record Well =
  well_name :: string
  cluster :: string
  well_field :: string
  layer :: string
  purpose :: string
  well_type :: string
  oil_rate :: real
  liq_rate :: real
  well_length :: real
  init_entry_date :: "datetime option"
  readiness_date :: "datetime option"
  depend_from_cluster :: "string option"
  tasks :: "Task list"

record ScheduleEntry =
  e_task :: Task
  e_team :: Team
  e_start :: datetime
  e_end :: datetime
  travel_time :: timedelta

record WellPlanContext =
  well :: Well
  c_start :: datetime
  c_end :: datetime
  entries :: "ScheduleEntry list"
  cost :: "real option"
  oil_prod_profile :: "real list"
  liq_prod_profile :: "real list"
  metadata :: "string \<rightharpoonup> real"

definition get_next_available_date :: "WellPlanContext \<Rightarrow> datetime" where
  "get_next_available_date ctx =
     (case entries ctx of
        [] \<Rightarrow> c_start ctx
      | e # es \<Rightarrow> fold (\<lambda>x m. max m (e_end x)) es (e_end e))"

fun entry_by_task :: "Task \<Rightarrow> ScheduleEntry list \<Rightarrow> ScheduleEntry option" where
  "entry_by_task task [] = None"
| "entry_by_task task (e # es) = (if task = e_task e then Some e else entry_by_task task es)"

definition get_entry_by_task :: "WellPlanContext \<Rightarrow> Task \<Rightarrow> ScheduleEntry option" where
  "get_entry_by_task ctx task = entry_by_task task (entries ctx)"

definition launch_date :: "WellPlanContext \<Rightarrow> error + datetime" where
  "launch_date ctx =
     (case entries ctx of
        [] \<Rightarrow> Inl ValueError
      | e # es \<Rightarrow> Inr (fold (\<lambda>x m. max m (e_end x)) es (e_end e)))"

record Plan =
  plan_id :: nat
  well_plans :: "WellPlanContext list"

definition add_context :: "Plan \<Rightarrow> WellPlanContext \<Rightarrow> Plan" where
  "add_context p ctx = p\<lparr>well_plans := well_plans p @ [ctx]\<rparr>"

definition total_profit :: "Plan \<Rightarrow> real" where
  "total_profit p = py_sum [the (cost wp). wp \<leftarrow> well_plans p, cost wp \<noteq> None]"

section \<open>Calendar arithmetic\<close>

lemma div_decomp: "0 \<le> r \<Longrightarrow> r < m \<Longrightarrow> (m * x + r) div m = (x::int)"
  by (simp add: div_pos_pos_trivial)

lemma dby_decomp:
  assumes "0 \<le> a" "a \<le> 3" "0 \<le> c" "c \<le> 24" "0 \<le> e" "e \<le> 3"
  shows "days_before_year (400 * q + 100 * a + 4 * c + e + 1)
         = 146097 * q + 36524 * a + 1461 * c + 365 * e"
proof -
  let ?k = "400 * q + 100 * a + 4 * c + e"
  have k4: "?k div 4 = 100 * q + 25 * a + c"
    using div_decomp [of e 4 "100 * q + 25 * a + c"] assms by (simp add: algebra_simps)
  have k100: "?k div 100 = 4 * q + a"
    using div_decomp [of "4 * c + e" 100 "4 * q + a"] assms by (simp add: algebra_simps)
  have k400: "?k div 400 = q"
    using div_decomp [of "100 * a + 4 * c + e" 400 q] assms by (simp add: algebra_simps)
  show ?thesis
    unfolding days_before_year_def using k4 k100 k400 by simp
qed

lemma dby_step: "days_before_year y < days_before_year (y + 1)"
proof -
  have a: "(y - 1) div 4 \<le> y div 4" by (rule zdiv_mono1) simp_all
  have "y div 100 \<le> (y - 1 + 1 * 100) div 100" by (rule zdiv_mono1) simp_all
  then have b: "y div 100 \<le> (y - 1) div 100 + 1" by simp
  have c: "(y - 1) div 400 \<le> y div 400" by (rule zdiv_mono1) simp_all
  show ?thesis unfolding days_before_year_def using a b c by simp
qed

lemma dby_strict_mono: "y < y' \<Longrightarrow> days_before_year y < days_before_year y'"
proof (induction y' rule: int_gr_induct)
  case base
  show ?case by (rule dby_step)
next
  case (step i)
  have "days_before_year i < days_before_year (i + 1)" by (rule dby_step)
  with step show ?case by simp
qed

lemma ord2year_bounds:
  "days_before_year (ord2year n) \<le> n \<and> n < days_before_year (ord2year n + 1)"
proof -
  define q where "q = n div 146097"
  define r where "r = n mod 146097"
  define a where "a = r div 36524"
  define r2 where "r2 = r mod 36524"
  define c where "c = r2 div 1461"
  define r3 where "r3 = r2 mod 1461"
  define e where "e = r3 div 365"
  define d where "d = r3 mod 365"
  have n: "n = 146097 * q + r" and r: "0 \<le> r" "r < 146097"
    unfolding q_def r_def by simp_all
  have r': "r = 36524 * a + r2" and r2: "0 \<le> r2" "r2 < 36524"
    unfolding a_def r2_def by simp_all
  have r2': "r2 = 1461 * c + r3" and r3: "0 \<le> r3" "r3 < 1461"
    unfolding c_def r3_def by simp_all
  have r3': "r3 = 365 * e + d" and d: "0 \<le> d" "d < 365"
    unfolding e_def d_def by simp_all
  have a: "0 \<le> a" "a \<le> 4" using r r' r2 by linarith+
  have c: "0 \<le> c" "c \<le> 24" using r2 r2' r3 by linarith+
  have e: "0 \<le> e" "e \<le> 4" using r3 r3' d by linarith+
  have Y: "ord2year n = (if e = 4 \<or> a = 4 then 400 * q + 100 * a + 4 * c + e
                         else 400 * q + 100 * a + 4 * c + e + 1)"
    unfolding ord2year_def Let_def q_def r_def a_def r2_def c_def r3_def e_def
    by (simp add: algebra_simps)
  consider (a4) "a = 4" | (e4) "a \<le> 3" "e = 4" | (e3c24a3) "a = 3" "c = 24" "e = 3"
    | (e3c24) "a \<le> 2" "c = 24" "e = 3" | (e3) "a \<le> 3" "c \<le> 23" "e = 3"
    | (reg) "a \<le> 3" "e \<le> 2"
    using a c e by linarith
  then show ?thesis
  proof cases
    case a4
    then have z: "r2 = 0" "c = 0" "r3 = 0" "e = 0" "d = 0"
      using r r' r2 r2' r3 r3' d c e by linarith+
    have "ord2year n = 400 * q + 100 * 3 + 4 * 24 + 3 + 1" using Y a4 z by simp
    moreover have "ord2year n + 1 = 400 * (q + 1) + 100 * 0 + 4 * 0 + 0 + 1"
      using Y a4 z by simp
    ultimately show ?thesis
      using dby_decomp [of 3 24 3 q] dby_decomp [of 0 0 0 "q + 1"] n r' z a4 by simp
  next
    case e4
    then have z: "d = 0" "c \<le> 23" using r2 r2' r3 r3' d by linarith+
    have "ord2year n = 400 * q + 100 * a + 4 * c + 3 + 1" using Y e4 by simp
    moreover have "ord2year n + 1 = 400 * q + 100 * a + 4 * (c + 1) + 0 + 1"
      using Y e4 by simp
    ultimately show ?thesis
      using dby_decomp [of a c 3 q] dby_decomp [of a "c + 1" 0 q] n r' r2' r3' z e4 a c
      by simp
  next
    case e3c24a3
    have "ord2year n = 400 * q + 100 * a + 4 * c + e + 1" using Y e3c24a3 by simp
    moreover have "ord2year n + 1 = 400 * (q + 1) + 100 * 0 + 4 * 0 + 0 + 1"
      using Y e3c24a3 by simp
    ultimately show ?thesis
      using dby_decomp [of a c e q] dby_decomp [of 0 0 0 "q + 1"] n r r' r2' r3' d e3c24a3
      by simp
  next
    case e3c24
    have "ord2year n = 400 * q + 100 * a + 4 * c + e + 1" using Y e3c24 by simp
    moreover have "ord2year n + 1 = 400 * q + 100 * (a + 1) + 4 * 0 + 0 + 1"
      using Y e3c24 by simp
    ultimately show ?thesis
      using dby_decomp [of a c e q] dby_decomp [of "a + 1" 0 0 q] n r' r2 r2' r3' d e3c24 a
      by simp
  next
    case e3
    have "ord2year n = 400 * q + 100 * a + 4 * c + e + 1" using Y e3 by simp
    moreover have "ord2year n + 1 = 400 * q + 100 * a + 4 * (c + 1) + 0 + 1"
      using Y e3 by simp
    ultimately show ?thesis
      using dby_decomp [of a c e q] dby_decomp [of a "c + 1" 0 q] n r' r2' r3 r3' d e3 a c
      by simp
  next
    case reg
    have "ord2year n = 400 * q + 100 * a + 4 * c + e + 1" using Y reg by simp
    moreover have "ord2year n + 1 = 400 * q + 100 * a + 4 * c + (e + 1) + 1"
      using Y reg by simp
    ultimately show ?thesis
      using dby_decomp [of a c e q] dby_decomp [of a c "e + 1" q] n r' r2' r3' d reg a c e
      by simp
  qed
qed

lemma ord2year_dby: "ord2year (days_before_year y) = y"
proof -
  let ?Y = "ord2year (days_before_year y)"
  have b: "days_before_year ?Y \<le> days_before_year y"
          "days_before_year y < days_before_year (?Y + 1)"
    using ord2year_bounds [of "days_before_year y"] by simp_all
  have "\<not> y < ?Y"
    using dby_strict_mono [of y ?Y] b by linarith
  moreover have "\<not> ?Y + 1 \<le> y"
  proof
    assume h: "?Y + 1 \<le> y"
    show False
    proof (cases "?Y + 1 = y")
      case True with b show False by simp
    next
      case False
      with h have "?Y + 1 < y" by simp
      from dby_strict_mono [OF this] b show False by linarith
    qed
  qed
  ultimately show ?thesis by linarith
qed

lemma year_jan1: "year (datetime_jan1 y) = y"
  by (simp add: year_def datetime_jan1_def us_per_day_def ord2year_dby)

lemma jan1_strict_mono: "y < y' \<Longrightarrow> datetime_jan1 y < datetime_jan1 y'"
  using dby_strict_mono [of y y'] by (simp add: datetime_jan1_def us_per_day_def)

lemma jan1_next_year: "t < datetime_jan1 (year t + 1)"
proof -
  have "t div us_per_day < days_before_year (year t + 1)"
    using ord2year_bounds [of "t div us_per_day"] by (simp add: year_def)
  then have "t div 86400000000 + 1 \<le> days_before_year (year t + 1)"
    by (simp add: us_per_day_def)
  then have "(t div 86400000000 + 1) * 86400000000 \<le> days_before_year (year t + 1) * 86400000000"
    by simp
  moreover have "t < (t div 86400000000 + 1) * 86400000000"
  proof -
    have "t mod 86400000000 < 86400000000" by simp
    moreover have "t = t div 86400000000 * 86400000000 + t mod 86400000000" by simp
    ultimately show ?thesis by (simp add: algebra_simps)
  qed
  ultimately show ?thesis by (simp add: datetime_jan1_def us_per_day_def)
qed

lemma jan1_after: "year t < y \<Longrightarrow> t < datetime_jan1 y"
proof -
  assume "year t < y"
  then have "year t + 1 \<le> y" by simp
  then have "datetime_jan1 (year t + 1) \<le> datetime_jan1 y"
    using jan1_strict_mono [of "year t + 1" y] by (cases "year t + 1 = y") auto
  with jan1_next_year [of t] show ?thesis by linarith
qed

section \<open>Team movement and team manager (services/team_manager.py)\<close>

subsection \<open>Movement between clusters\<close>

definition SimpleTeamMovement_get_move_days :: "string option \<Rightarrow> string \<Rightarrow> error + real" where
  "SimpleTeamMovement_get_move_days from_cluster to_cluster =
     (if from_cluster = Some to_cluster then Inr 1 else Inr 14)"

record Coordinate =
  cx :: real
  cy :: real
  cz :: real

definition distance_to :: "Coordinate \<Rightarrow> Coordinate \<Rightarrow> real" where
  "distance_to self other =
     sqrt ((cx self - cx other)\<^sup>2 + (cy self - cy other)\<^sup>2 + (cz self - cz other)\<^sup>2)"

record DistanceTeamMovement =
  cluster_coordinates :: "string \<rightharpoonup> Coordinate"
  min_days_between_clusters :: real
  team_speed_kmh :: real
  same_cluster_move_days :: real

definition DistanceTeamMovement_init :: "(string \<rightharpoonup> Coordinate) \<Rightarrow> DistanceTeamMovement" where
  \<comment> \<open>the dataclass with its default field values\<close>
  "DistanceTeamMovement_init coords =
     \<lparr>cluster_coordinates = coords, min_days_between_clusters = 90, team_speed_kmh = 15,
      same_cluster_move_days = 1\<rparr>"

definition DistanceTeamMovement_get_move_days ::
  "DistanceTeamMovement \<Rightarrow> string option \<Rightarrow> string \<Rightarrow> error + real" where
  "DistanceTeamMovement_get_move_days self from_cluster to_cluster =
     (if from_cluster = Some to_cluster then Inr (same_cluster_move_days self)
      else case from_cluster of
        None \<Rightarrow> Inr (min_days_between_clusters self)
      | Some f \<Rightarrow>
          (case cluster_coordinates self f of
             None \<Rightarrow> Inr (min_days_between_clusters self)
           | Some from_coor \<Rightarrow>
               (case cluster_coordinates self to_cluster of
                  None \<Rightarrow> Inr (min_days_between_clusters self)
                | Some to_coor \<Rightarrow>
                    (let distance_meters = distance_to from_coor to_coor in
                     if team_speed_kmh self * 1000 = 0 then Inl ZeroDivisionError
                     else
                       let travel_days = (distance_meters / (team_speed_kmh self * 1000)) / 24
                       in Inr (min_days_between_clusters self + travel_days)))))"

subsection \<open>Manager state\<close>

record TeamState =
  available_from :: datetime
  current_cluster :: "string option"

definition TeamState_init :: TeamState where
  "TeamState_init = \<lparr>available_from = datetime_min, current_cluster = None\<rparr>"

text \<open>
  Dictionaries that are iterated are association lists with one pair per key;
  \<open>dict_set\<close> is the item assignment \<open>d[k] = v\<close>. The usage sets are a
  \<open>defaultdict\<close> of \<open>defaultdict(set)\<close>: a total function whose default is the
  empty set.
\<close>

fun dict_set :: "'k \<Rightarrow> 'v \<Rightarrow> ('k \<times> 'v) list \<Rightarrow> ('k \<times> 'v) list" where
  "dict_set k v [] = [(k, v)]"
| "dict_set k v (p # ps) = (if fst p = k then (k, v) # ps else p # dict_set k v ps)"

definition dict_keys :: "('k \<times> 'v) list \<Rightarrow> 'k list" where
  "dict_keys d = remdups (map fst d)"

type_synonym TaskLimits = "(Task \<times> int) list"
type_synonym YearlyLimits = "(int \<times> TaskLimits) list"

record TeamManager =
  team_pool :: TeamPool
  movement :: "string option \<Rightarrow> string \<Rightarrow> error + real"
  states :: "(Team \<times> TeamState) list"
  enable_team_count :: bool
  usage_counts :: "int \<Rightarrow> Task \<Rightarrow> Team set"
  limits :: YearlyLimits

definition TeamManager_init ::
  "TeamPool \<Rightarrow> (string option \<Rightarrow> string \<Rightarrow> error + real) \<Rightarrow> bool \<Rightarrow> YearlyLimits option
   \<Rightarrow> TeamManager" where
  "TeamManager_init pool mv cnt lims =
     \<lparr>team_pool = pool, movement = mv,
      states = map (\<lambda>team. (team, TeamState_init)) (pool_teams pool),
      enable_team_count = cnt,
      usage_counts = (\<lambda>y task. {}),
      limits = (case lims of None \<Rightarrow> [] | Some l \<Rightarrow> l)\<rparr>"

definition check_limit :: "TeamManager \<Rightarrow> Task \<Rightarrow> int \<Rightarrow> Team \<Rightarrow> bool" where
  "check_limit self task y team =
     (if limits self = [] then True
      else case map_of (limits self) y of
        None \<Rightarrow> True
      | Some year_limits \<Rightarrow>
          if year_limits = [] then True
          else (case map_of year_limits task of
             None \<Rightarrow> True
           | Some max_count \<Rightarrow>
               if team \<in> usage_counts self y task then True
               else int (card (usage_counts self y task)) < max_count))"

definition record_year :: "Task \<Rightarrow> Team \<Rightarrow> int \<Rightarrow> TeamManager \<Rightarrow> TeamManager" where
  \<comment> \<open>the body of the loop of \<open>_record_usage\<close> for one year\<close>
  "record_year task team year_to_record self =
     (let year_limits = (case map_of (limits self) year_to_record of None \<Rightarrow> [] | Some l \<Rightarrow> l)
      in case map_of year_limits task of
        None \<Rightarrow> self
      | Some year_task_limit \<Rightarrow>
          if check_limit self task year_to_record team
          then self\<lparr>usage_counts := (usage_counts self)
                 (year_to_record := (usage_counts self year_to_record)
                    (task := insert team (usage_counts self year_to_record task)))\<rparr>
          else self)"

definition record_usage :: "TeamManager \<Rightarrow> Task \<Rightarrow> int \<Rightarrow> Team \<Rightarrow> TeamManager" where
  "record_usage self task assignment_year team =
     (let relevant_years = sort (filter (\<lambda>y. assignment_year \<le> y) (dict_keys (limits self)))
      in fold (record_year task team) relevant_years self)"

definition assign_entry :: "Well \<Rightarrow> ScheduleEntry \<Rightarrow> TeamManager \<Rightarrow> TeamManager" where
  \<comment> \<open>the body of the loop of \<open>assign\<close> for one entry\<close>
  "assign_entry w entry self =
     record_usage
       (self\<lparr>states := dict_set (e_team entry)
          \<lparr>available_from = e_end entry, current_cluster = Some (cluster w)\<rparr> (states self)\<rparr>)
       (e_task entry) (year (e_start entry)) (e_team entry)"

definition assign :: "TeamManager \<Rightarrow> WellPlanContext \<Rightarrow> TeamManager" where
  "assign self context = fold (assign_entry (well context)) (entries context) self"

definition count_teams_on_cluster_by_task ::
  "TeamManager \<Rightarrow> string \<Rightarrow> Task option \<Rightarrow> Team option \<Rightarrow> nat" where
  "count_teams_on_cluster_by_task self cl task team =
     length (filter (\<lambda>(t, team_state).
        current_cluster team_state = Some cl
        \<and> (case task of None \<Rightarrow> True | Some k \<Rightarrow> k \<in> supported_tasks t)
        \<and> Some t \<noteq> team) (states self))"

definition count_teams_on_cluster ::
  "TeamManager \<Rightarrow> WellPlanContext \<Rightarrow> Task option \<Rightarrow> Team option \<Rightarrow> WellPlanContext" where
  "count_teams_on_cluster self context task team =
     (let metadata_key = (case task of None \<Rightarrow> ''team_count''
                          | Some k \<Rightarrow> ''team_count_'' @ task_name_lower k);
          count = count_teams_on_cluster_by_task self (cluster (well context)) task team
      in context\<lparr>metadata := (metadata context)(metadata_key \<mapsto> real count)\<rparr>)"

definition get_travel_time :: "TeamManager \<Rightarrow> TeamState \<Rightarrow> Well \<Rightarrow> error + timedelta" where
  "get_travel_time self state w =
     (case movement self (current_cluster state) (cluster w) of
        Inl e \<Rightarrow> Inl e
      | Inr move_days \<Rightarrow> Inr (timedelta_of_float_days move_days))"

subsection \<open>Search for a start time within the yearly limits\<close>

lemma check_limit_fails_year:
  "\<not> check_limit self task y team \<Longrightarrow> y \<in> set (dict_keys (limits self))"
  by (auto simp: check_limit_def dict_keys_def split: if_splits option.splits
           dest: map_of_SomeD intro: rev_image_eqI)

lemma filter_years_shrinks:
  assumes "y \<in> set ys"
  shows "length (filter (\<lambda>k. y + 1 \<le> k) ys) < length (filter (\<lambda>k. (y::int) \<le> k) ys)"
proof -
  have "filter (\<lambda>k. y + 1 \<le> k) ys = filter (\<lambda>k. y + 1 \<le> k) (filter (\<lambda>k. y \<le> k) ys)"
    by (induction ys) auto
  moreover have "y \<in> set (filter (\<lambda>k. y \<le> k) ys)" using assms by simp
  ultimately show ?thesis
    using length_filter_less [of y "filter (\<lambda>k. y \<le> k) ys" "\<lambda>k. y + 1 \<le> k"] by simp
qed

function find_start_loop :: "TeamManager \<Rightarrow> Task \<Rightarrow> Team \<Rightarrow> datetime \<Rightarrow> datetime option" where
  "find_start_loop self task team current_start =
     (let current_year = year current_start in
      if check_limit self task current_year team then Some current_start
      else find_start_loop self task team (datetime_jan1 (current_year + 1)))"
  by pat_completeness auto
termination
proof (relation "measure (\<lambda>(self, task, team, cur).
          length (filter (\<lambda>k. year cur \<le> k) (dict_keys (limits self))))")
  show "wf (measure (\<lambda>(self, task, team, cur).
          length (filter (\<lambda>k. year cur \<le> k) (dict_keys (limits self)))))"
    by simp
next
  fix self :: TeamManager and task team and current_start :: datetime and current_year
  assume "current_year = year current_start"
     and "\<not> check_limit self task current_year team"
  then show "((self, task, team, datetime_jan1 (current_year + 1)), (self, task, team, current_start))
        \<in> measure (\<lambda>(self, task, team, cur).
            length (filter (\<lambda>k. year cur \<le> k) (dict_keys (limits self))))"
    using filter_years_shrinks [OF check_limit_fails_year, of self task "year current_start" team]
    by (simp add: year_jan1)
qed

definition find_available_start_time ::
  "TeamManager \<Rightarrow> Task \<Rightarrow> Team \<Rightarrow> timedelta \<Rightarrow> WellPlanContext \<Rightarrow> error + datetime option" where
  "find_available_start_time self task team travel context =
     (case map_of (states self) team of
        None \<Rightarrow> Inl KeyError
      | Some state \<Rightarrow>
          (let base_start = max (available_from state + travel) (get_next_available_date context)
           in Inr (find_start_loop self task team base_start)))"

subsection \<open>Tentative assignment of a well's tasks\<close>

type_synonym candidate = "datetime \<times> datetime \<times> Team \<times> timedelta"

fun team_candidates ::
  "TeamManager \<Rightarrow> Task \<Rightarrow> WellPlanContext \<Rightarrow> Team list \<Rightarrow> error + candidate list" where
  "team_candidates self task context [] = Inr []"
| "team_candidates self task context (team # teams) =
     (case map_of (states self) team of
        None \<Rightarrow> Inl KeyError
      | Some state \<Rightarrow>
          (case get_travel_time self state (well context) of
             Inl e \<Rightarrow> Inl e
           | Inr travel \<Rightarrow>
               (case find_available_start_time self task team travel context of
                  Inl e \<Rightarrow> Inl e
                | Inr None \<Rightarrow> team_candidates self task context teams
                | Inr (Some start_time) \<Rightarrow>
                    (case team_candidates self task context teams of
                       Inl e \<Rightarrow> Inl e
                     | Inr cs \<Rightarrow>
                         Inr ((start_time, start_time + duration task, team, travel) # cs)))))"

definition cand_end :: "candidate \<Rightarrow> datetime" where
  "cand_end c = fst (snd c)"

definition cand_team :: "candidate \<Rightarrow> Team" where
  "cand_team c = fst (snd (snd c))"

definition min_by_end :: "candidate \<Rightarrow> candidate list \<Rightarrow> candidate" where
  \<comment> \<open>\<open>min(candidates, key=lambda x: x[1])\<close> on a non-empty list: the first minimal item\<close>
  "min_by_end c cs = fold (\<lambda>x best. if cand_end x < cand_end best then x else best) cs c"

definition assign_task :: "TeamManager \<Rightarrow> WellPlanContext \<Rightarrow> Task \<Rightarrow> error + WellPlanContext" where
  \<comment> \<open>the body of the loop of \<open>get_assignments\<close> for one task\<close>
  "assign_task self context task =
     (if task \<notin> pool_supported_tasks (team_pool self) then Inl ValueError
      else case team_candidates self task context (get_teams_for_task (team_pool self) task) of
        Inl e \<Rightarrow> Inl e
      | Inr [] \<Rightarrow> Inr context
      | Inr (c # cs) \<Rightarrow>
          (case min_by_end c cs of (best_start, best_end, best_team, travel) \<Rightarrow>
             let context' = context\<lparr>entries := entries context @
                   [\<lparr>e_task = task, e_team = best_team, e_start = best_start, e_end = best_end,
                     travel_time = travel\<rparr>]\<rparr>
             in Inr (if enable_team_count self
                     then count_teams_on_cluster self context' (Some task) (Some best_team)
                     else context')))"

fun get_assignments_loop ::
  "TeamManager \<Rightarrow> WellPlanContext \<Rightarrow> Task list \<Rightarrow> error + WellPlanContext" where
  "get_assignments_loop self context [] = Inr context"
| "get_assignments_loop self context (task # ts) =
     (case assign_task self context task of
        Inl e \<Rightarrow> Inl e
      | Inr context' \<Rightarrow> get_assignments_loop self context' ts)"

definition get_assignments :: "TeamManager \<Rightarrow> WellPlanContext \<Rightarrow> error + WellPlanContext" where
  "get_assignments self context = get_assignments_loop self context (tasks (well context))"

subsection \<open>Sequences of calls on one manager\<close>

datatype call = GetAssignments WellPlanContext | Assign WellPlanContext

fun run_call :: "call \<Rightarrow> TeamManager \<Rightarrow> TeamManager" where
  \<comment> \<open>\<open>get_assignments\<close> writes to the context only, whatever it returns or raises\<close>
  "run_call (GetAssignments context) self = self"
| "run_call (Assign context) self = assign self context"

definition run_calls :: "call list \<Rightarrow> TeamManager \<Rightarrow> TeamManager" where
  "run_calls calls self = fold run_call calls self"

definition configured_limit :: "TeamManager \<Rightarrow> int \<Rightarrow> Task \<Rightarrow> int option" where
  \<comment> \<open>\<open>limits[y][task]\<close> when both keys are present\<close>
  "configured_limit self y task =
     (case map_of (limits self) y of None \<Rightarrow> None | Some year_limits \<Rightarrow> map_of year_limits task)"

definition quota_inv :: "TeamManager \<Rightarrow> bool" where
  "quota_inv self \<longleftrightarrow>
     (\<forall>y task. finite (usage_counts self y task)
        \<and> (\<forall>L. configured_limit self y task = Some L
              \<longrightarrow> int (card (usage_counts self y task)) \<le> max 0 L))"

declare find_start_loop.simps [simp del]

subsection \<open>The entries that an earliest-finish assignment appends\<close>

definition earliest_start :: "TeamManager \<Rightarrow> Task \<Rightarrow> Team \<Rightarrow> datetime \<Rightarrow> datetime \<Rightarrow> bool" where
  \<comment> \<open>\<open>st\<close> is the first of \<open>base\<close>, January 1 of the next year, January 1 of the year
      after it, ... whose year passes the limit check for the team\<close>
  "earliest_start self task team base st \<longleftrightarrow>
     check_limit self task (year st) team
     \<and> ((check_limit self task (year base) team \<and> st = base)
        \<or> (\<exists>y. year base < y \<and> st = datetime_jan1 y
              \<and> (\<forall>y'. year base \<le> y' \<and> y' < y \<longrightarrow> \<not> check_limit self task y' team)))"

definition offers_window ::
  "TeamManager \<Rightarrow> Task \<Rightarrow> WellPlanContext \<Rightarrow> Team \<Rightarrow> datetime \<Rightarrow> datetime \<Rightarrow> timedelta
   \<Rightarrow> bool" where
  \<comment> \<open>the window that a team offers for a task of the context: it starts at the earliest
      start that is not before the team is free and has travelled to the cluster of the
      well, and not before the latest end of the entries that the context has already (its
      start when it has none), and it lasts the duration of the task\<close>
  "offers_window self task context team st en tr \<longleftrightarrow>
     (\<exists>state days.
        map_of (states self) team = Some state
        \<and> movement self (current_cluster state) (cluster (well context)) = Inr days
        \<and> tr = timedelta_of_float_days days
        \<and> earliest_start self task team
             (max (available_from state + tr)
                  (if entries context = [] then c_start context
                   else Max (set (map e_end (entries context)))))
             st
        \<and> en = st + duration task)"

definition is_earliest :: "TeamManager \<Rightarrow> WellPlanContext \<Rightarrow> Task \<Rightarrow> ScheduleEntry \<Rightarrow> bool" where
  \<comment> \<open>\<open>e\<close> is the window that its team, a team of the pool capable of \<open>task\<close>, offers
      for \<open>context\<close>; every team capable of \<open>task\<close> offers a window, and none of these
      windows ends before \<open>e\<close>; the windows of the teams listed before the team of \<open>e\<close>
      end after \<open>e\<close>\<close>
  "is_earliest self context task e \<longleftrightarrow>
     e_task e = task
     \<and> (\<exists>teams before after.
           team_pool self task = Some teams
           \<and> teams = before @ e_team e # after
           \<and> offers_window self task context (e_team e) (e_start e) (e_end e) (travel_time e)
           \<and> (\<forall>team \<in> set teams. \<exists>st en tr. offers_window self task context team st en tr)
           \<and> (\<forall>team \<in> set teams. \<forall>st en tr.
                  offers_window self task context team st en tr \<longrightarrow> e_end e \<le> en)
           \<and> (\<forall>team \<in> set before. \<forall>st en tr.
                  offers_window self task context team st en tr \<longrightarrow> e_end e < en))"

fun earliest_finish ::
  "TeamManager \<Rightarrow> WellPlanContext \<Rightarrow> Task list \<Rightarrow> ScheduleEntry list \<Rightarrow> bool" where
  \<comment> \<open>one entry per task, each the earliest-finishing candidate for the context as the
      entries before it have left it\<close>
  "earliest_finish self context [] es = (es = [])"
| "earliest_finish self context (task # ts) [] = False"
| "earliest_finish self context (task # ts) (e # es) =
     (is_earliest self context task e
      \<and> earliest_finish self (context\<lparr>entries := entries context @ [e]\<rparr>) ts es)"

section \<open>Cost function (services/cost.py)\<close>

record BaseCapex =
  build_cost_per_metr :: "string \<rightharpoonup> real"
  equipment :: real

definition BaseCapex_compute :: "BaseCapex \<Rightarrow> Well \<Rightarrow> error + real" where
  "BaseCapex_compute self w =
     (case build_cost_per_metr self (well_type w) of
        None \<Rightarrow> Inl KeyError
      | Some rate \<Rightarrow> Inr (rate * well_length w + equipment self))"

record BaseOpex =
  oil_cost :: real
  water_cost :: real
  repair_monthly :: real
  maintain_monthly :: real

definition BaseOpex_init :: "real \<Rightarrow> real \<Rightarrow> real \<Rightarrow> real \<Rightarrow> BaseOpex" where
  "BaseOpex_init oil_cost_per_tone water_cost_per_tone repair_per_year maintain_per_year =
     \<lparr>oil_cost = oil_cost_per_tone, water_cost = water_cost_per_tone,
      repair_monthly = repair_per_year / 12, maintain_monthly = maintain_per_year / 12\<rparr>"

definition BaseOpex_compute :: "BaseOpex \<Rightarrow> real list \<Rightarrow> real list \<Rightarrow> real list" where
  "BaseOpex_compute self monthly_oil_prod monthly_water_prod =
     map (\<lambda>(oil, water).
            if oil = 0 \<and> water = 0 then 0
            else oil * oil_cost self + water * water_cost self
                 + repair_monthly self + maintain_monthly self)
         (zip monthly_oil_prod monthly_water_prod)"

text \<open>
  \<open>capex_cost\<close> and \<open>opex_cost\<close> are the \<open>compute\<close> methods of the two cost providers
  that the NPV object is built with.
\<close>

record NPV =
  capex_cost :: "Well \<Rightarrow> error + real"
  opex_cost :: "real list \<Rightarrow> real list \<Rightarrow> real list"
  discount_rate :: real
  oil_price :: real
  npv_start :: datetime
  travel_cost_per_day :: real

definition discount :: "NPV \<Rightarrow> real \<Rightarrow> real \<Rightarrow> error + real" where
  \<comment> \<open>\<open>cash_flow / (1 + self.discount_rate) ** years\<close>\<close>
  "discount self cash_flow years =
     (case py_float_pow (1 + discount_rate self) years of
        Inl e \<Rightarrow> Inl e
      | Inr d \<Rightarrow> py_float_div cash_flow d)"

definition NPV_compute :: "NPV \<Rightarrow> WellPlanContext \<Rightarrow> error + WellPlanContext" where
  "NPV_compute self context =
     (let shift_years =
            real_of_int (td_days (get_next_available_date context - npv_start self)) / 365
      in case capex_cost self (well context) of
        Inl e \<Rightarrow> Inl e
      | Inr capex \<Rightarrow>
         (let monthly_opex =
                opex_cost self (oil_prod_profile context)
                  (map (\<lambda>(liq, oil). liq - oil)
                     (zip (liq_prod_profile context) (oil_prod_profile context)));
              monthly_cash_flows =
                map (\<lambda>(oil, opex). oil * oil_price self - opex)
                  (zip (oil_prod_profile context) monthly_opex)
          in case map_result
                    (\<lambda>(month, cf). discount self cf (shift_years + real month / 12))
                    (enumerate 0 monthly_cash_flows) of
            Inl e \<Rightarrow> Inl e
          | Inr discounted \<Rightarrow>
             (let discounted_cash_flows = py_sum discounted
              in case discount self capex shift_years of
                Inl e \<Rightarrow> Inl e
              | Inr discounted_capex \<Rightarrow>
                 (let entry = get_entry_by_task context DRILLING;
                      travel_cost =
                        (case entry of
                           Some e \<Rightarrow>
                             real_of_int (td_days (travel_time e)) * travel_cost_per_day self
                         | None \<Rightarrow> 0);
                      drill_team_penalty =
                        (case metadata context ''team_count_drilling'' of
                           None \<Rightarrow> 0
                         | Some n \<Rightarrow> n)
                        * travel_cost
                  in Inr (context
                       \<lparr>cost := Some (discounted_cash_flows - discounted_capex - travel_cost),
                        metadata := (metadata context)
                          (''travel_cost'' \<mapsto> travel_cost,
                           ''cash_flow'' \<mapsto> discounted_cash_flows,
                           ''capex'' \<mapsto> discounted_capex,
                           ''drill_team_penalty'' \<mapsto> drill_team_penalty)\<rparr>)))))"

section \<open>Whole-plan simulated annealing (services/optimization.py)\<close>

text \<open>
  The draws of the random source during one call of \<open>_get_neighbor\<close> are an argument:
  the mutation chosen by \<open>random.choice\<close> and a natural number for every other call of
  \<open>random\<close>, which the functions below bring into the range that the call asks for.
\<close>

datatype mutation = swap_wells | shift_well | reassign_team

record draws =
  mutation_type :: mutation
  sample_first :: nat
  sample_second :: nat
  randint_idx :: nat
  randint_days :: nat
  choice_entry :: nat
  choice_team :: nat

definition py_randint :: "int \<Rightarrow> int \<Rightarrow> nat \<Rightarrow> error + int" where
  \<comment> \<open>\<open>random.randint(lo, hi)\<close>: an empty range raises ValueError\<close>
  "py_randint lo hi d = (if hi < lo then Inl ValueError else Inr (lo + int d mod (hi - lo + 1)))"

definition py_choice_index :: "'a list \<Rightarrow> nat \<Rightarrow> error + nat" where
  \<comment> \<open>the index that \<open>random.choice(xs)\<close> picks: an empty sequence raises IndexError\<close>
  "py_choice_index xs d = (if xs = [] then Inl IndexError else Inr (d mod length xs))"

definition py_sample2 :: "nat \<Rightarrow> nat \<Rightarrow> nat \<Rightarrow> nat \<times> nat" where
  \<comment> \<open>\<open>random.sample(range(n), 2)\<close> for \<open>n > 1\<close>: two distinct indices\<close>
  "py_sample2 n d1 d2 = (let i = d1 mod n in (i, (i + 1 + d2 mod (n - 1)) mod n))"

definition ScheduleEntry_setattr ::
  "ScheduleEntry \<Rightarrow> (ScheduleEntry \<Rightarrow> ScheduleEntry) \<Rightarrow> error + ScheduleEntry" where
  \<comment> \<open>\<open>ScheduleEntry\<close> is declared \<open>frozen=True\<close>: an assignment to a field of an entry
      raises FrozenInstanceError, whatever the new value\<close>
  "ScheduleEntry_setattr entry assignment = Inl FrozenInstanceError"

fun shift_entries :: "int \<Rightarrow> ScheduleEntry list \<Rightarrow> error + ScheduleEntry list" where
  \<comment> \<open>the loop \<open>for entry in entries: entry.start += ...; entry.end += ...\<close>\<close>
  "shift_entries days_shift [] = Inr []"
| "shift_entries days_shift (entry # es) =
     (case ScheduleEntry_setattr entry
             (\<lambda>e. e\<lparr>e_start := e_start e + timedelta_of_days days_shift\<rparr>) of
        Inl err \<Rightarrow> Inl err
      | Inr entry1 \<Rightarrow>
          (case ScheduleEntry_setattr entry1
                  (\<lambda>e. e\<lparr>e_end := e_end e + timedelta_of_days days_shift\<rparr>) of
             Inl err \<Rightarrow> Inl err
           | Inr entry2 \<Rightarrow>
               (case shift_entries days_shift es of
                  Inl err \<Rightarrow> Inl err
                | Inr es' \<Rightarrow> Inr (entry2 # es'))))"

definition mutate_swap_wells :: "draws \<Rightarrow> Plan \<Rightarrow> Plan" where
  "mutate_swap_wells rnd neighbor =
     (let wps = well_plans neighbor
      in case py_sample2 (length wps) (sample_first rnd) (sample_second rnd) of
           (idx1, idx2) \<Rightarrow> neighbor\<lparr>well_plans := wps[idx1 := wps ! idx2, idx2 := wps ! idx1]\<rparr>)"

definition mutate_shift_well :: "draws \<Rightarrow> Plan \<Rightarrow> error + Plan" where
  "mutate_shift_well rnd neighbor =
     (let wps = well_plans neighbor
      in case py_randint 0 (int (length wps) - 1) (randint_idx rnd) of
        Inl err \<Rightarrow> Inl err
      | Inr idx \<Rightarrow>
          (case py_randint (- 30) 30 (randint_days rnd) of
             Inl err \<Rightarrow> Inl err
           | Inr days_shift \<Rightarrow>
               (case shift_entries days_shift (entries (wps ! nat idx)) of
                  Inl err \<Rightarrow> Inl err
                | Inr es \<Rightarrow>
                    Inr (neighbor\<lparr>well_plans := wps[nat idx := (wps ! nat idx)\<lparr>entries := es\<rparr>]\<rparr>))))"

definition mutate_reassign_team :: "draws \<Rightarrow> Plan \<Rightarrow> TeamManager \<Rightarrow> error + Plan" where
  "mutate_reassign_team rnd neighbor manager =
     (let wps = well_plans neighbor
      in case py_randint 0 (int (length wps) - 1) (randint_idx rnd) of
        Inl err \<Rightarrow> Inl err
      | Inr idx \<Rightarrow>
          (let wp = wps ! nat idx in
           if entries wp \<noteq> [] then
             (case py_choice_index (entries wp) (choice_entry rnd) of
                Inl err \<Rightarrow> Inl err
              | Inr k \<Rightarrow>
                  (let entry = entries wp ! k;
                       teams = get_teams_for_task (team_pool manager) (e_task entry)
                   in case py_choice_index teams (choice_team rnd) of
                     Inl err \<Rightarrow> Inl err
                   | Inr j \<Rightarrow>
                       (case ScheduleEntry_setattr entry (\<lambda>e. e\<lparr>e_team := teams ! j\<rparr>) of
                          Inl err \<Rightarrow> Inl err
                        | Inr entry' \<Rightarrow>
                            Inr (neighbor\<lparr>well_plans :=
                                   wps[nat idx := wp\<lparr>entries := (entries wp)[k := entry']\<rparr>]\<rparr>))))
           else Inr neighbor))"

definition get_neighbor :: "draws \<Rightarrow> Plan \<Rightarrow> TeamManager \<Rightarrow> error + Plan \<times> TeamManager" where
  \<comment> \<open>returns the neighbour and the manager after the final \<open>manager.assign\<close> calls\<close>
  "get_neighbor rnd plan manager =
     (let neighbor = plan in
      case (if mutation_type rnd = swap_wells \<and> length (well_plans neighbor) > 1
            then Inr (mutate_swap_wells rnd neighbor)
            else if mutation_type rnd = shift_well then mutate_shift_well rnd neighbor
            else if mutation_type rnd = reassign_team
              then mutate_reassign_team rnd neighbor manager
            else Inr neighbor) of
        Inl err \<Rightarrow> Inl err
      | Inr neighbor' \<Rightarrow>
          Inr (neighbor', fold (\<lambda>wp m. assign m wp) (well_plans neighbor') manager))"

section \<open>Constraints (core/plan.py, services/constraint.py)\<close>

record ConstraintBound =
  bound_value :: real
  bound_year :: "int option"

text \<open>
  A \<open>Constraint\<close> is abstract: a concrete constraint brings its bounds and its
  \<open>is_violated\<close> method.
\<close>

record Constraint =
  bounds :: "ConstraintBound list"
  is_violated :: "Plan \<Rightarrow> WellPlanContext \<Rightarrow> bool"

definition time_bounds :: "Constraint list \<Rightarrow> int list" where
  "time_bounds cs = sort (remdups (List.map_filter bound_year (concat (map bounds cs))))"

definition get_period_end :: "Constraint list \<Rightarrow> int \<Rightarrow> int option" where
  "get_period_end cs current_year = find (\<lambda>y. current_year < y) (time_bounds cs)"

definition constraints_violated :: "Constraint list \<Rightarrow> Plan \<Rightarrow> WellPlanContext \<Rightarrow> bool" where
  \<comment> \<open>\<open>ConstraintManager.is_violated\<close>\<close>
  "constraints_violated cs p ctx = list_ex (\<lambda>c. is_violated c p ctx) cs"

section \<open>Plan builder (builder.py)\<close>

text \<open>
  The builder is written against interfaces: an infrastructure, a production profile and a
  cost function given to the constructor, and a team manager and an optional risk strategy
  given to \<open>compile\<close>. Each \<open>compute\<close> of a collaborator changes the context that it is
  given and returns it; here it is a function from the context to the changed context. The
  manager and the risk strategy have a state of their own, of type \<open>'m\<close> and \<open>'r\<close>. A
  manager changes its state in \<open>assign\<close> only.
\<close>

definition SimpleInfrastructure_get_ready_date :: "Well \<Rightarrow> datetime" where
  "SimpleInfrastructure_get_ready_date w =
     (case readiness_date w of Some d \<Rightarrow> d | None \<Rightarrow> datetime_min)"

record PlanBuilder =
  pb_start :: datetime
  pb_end :: datetime
  infra :: "Well \<Rightarrow> datetime"
  profiler :: "WellPlanContext \<Rightarrow> WellPlanContext"
  cost_function :: "WellPlanContext \<Rightarrow> error + WellPlanContext"
  constraints :: "Constraint list"
  use_drill_team_penalty :: bool

record 'm BaseTeamManager =
  get_assignments_of :: "'m \<Rightarrow> WellPlanContext \<Rightarrow> error + WellPlanContext"
  assign_of :: "'m \<Rightarrow> WellPlanContext \<Rightarrow> 'm"

definition TeamManager_methods :: "TeamManager BaseTeamManager" where
  "TeamManager_methods = \<lparr>get_assignments_of = get_assignments, assign_of = assign\<rparr>"

text \<open>
  \<open>define_risk\<close> draws from the random source: its first argument is the draw.
\<close>

record 'r RiskStrategy =
  apply_risk :: "'r \<Rightarrow> WellPlanContext \<Rightarrow> WellPlanContext"
  define_risk :: "nat \<Rightarrow> 'r \<Rightarrow> WellPlanContext \<Rightarrow> 'r \<times> WellPlanContext"

text \<open>
  The arguments of one call of \<open>compile\<close>, with the random source \<open>rnd\<close> of the run: the
  loop iteration \<open>i\<close> reads the draws \<open>rnd (2 * i)\<close> and \<open>rnd (2 * i + 1)\<close>.
\<close>

record ('m, 'r) compile_args =
  manager_methods :: "'m BaseTeamManager"
  risk_strategy :: "'r RiskStrategy option"
  keep_order :: bool
  cluster_ordered :: bool
  rnd :: "nat \<Rightarrow> nat"

record ('m, 'r) loop_state =
  current_start :: datetime
  remaining_wells :: "Well list"
  ls_plan :: Plan
  ls_manager :: 'm
  ls_risk :: 'r
  iteration :: nat

datatype 's step = Break | Continue 's

definition is_cluster_finished :: "Well list \<Rightarrow> string option \<Rightarrow> bool" where
  "is_cluster_finished remaining cl =
     (case cl of None \<Rightarrow> True | Some c \<Rightarrow> \<not> list_ex (\<lambda>w. cluster w = c) remaining)"

definition build_context ::
  "PlanBuilder \<Rightarrow> 'm BaseTeamManager \<Rightarrow> 'm \<Rightarrow> Well list \<Rightarrow> Well \<Rightarrow> datetime
   \<Rightarrow> error + WellPlanContext option" where
  "build_context self mm manager remaining w start =
     (if \<not> is_cluster_finished remaining (depend_from_cluster w) then Inr None
      else
        let context = \<lparr>well = w, c_start = max (infra self w) start, c_end = pb_end self,
                       entries = [], cost = None, oil_prod_profile = [],
                       liq_prod_profile = [], metadata = Map.empty\<rparr>
        in case get_assignments_of mm manager context of
          Inl e \<Rightarrow> Inl e
        | Inr context' \<Rightarrow>
            if get_next_available_date context' > pb_end self \<or> entries context' = []
            then Inr None
            else Inr (Some (profiler self context')))"

fun build_contexts_loop ::
  "PlanBuilder \<Rightarrow> 'm BaseTeamManager \<Rightarrow> 'm \<Rightarrow> Well list \<Rightarrow> datetime \<Rightarrow> Well list
   \<Rightarrow> error + WellPlanContext list" where
  "build_contexts_loop self mm manager remaining start [] = Inr []"
| "build_contexts_loop self mm manager remaining start (w # ws) =
     (case build_context self mm manager remaining w start of
        Inl e \<Rightarrow> Inl e
      | Inr r \<Rightarrow>
          (case build_contexts_loop self mm manager remaining start ws of
             Inl e \<Rightarrow> Inl e
           | Inr cs \<Rightarrow> Inr (case r of None \<Rightarrow> cs | Some c \<Rightarrow> c # cs)))"

definition build_contexts ::
  "PlanBuilder \<Rightarrow> 'm BaseTeamManager \<Rightarrow> 'm \<Rightarrow> Well list \<Rightarrow> datetime
   \<Rightarrow> error + WellPlanContext list" where
  "build_contexts self mm manager remaining start =
     build_contexts_loop self mm manager remaining start remaining"

definition date_or_min :: "WellPlanContext \<Rightarrow> datetime" where
  \<comment> \<open>\<open>candidate.well.init_entry_date or min_date\<close>\<close>
  "date_or_min c = (case init_entry_date (well c) of None \<Rightarrow> datetime_min | Some d \<Rightarrow> d)"

fun earliest_per_cluster ::
  "WellPlanContext list \<Rightarrow> (string \<times> WellPlanContext) list \<Rightarrow> (string \<times> WellPlanContext) list"
  where
  "earliest_per_cluster [] d = d"
| "earliest_per_cluster (candidate # cs) d =
     earliest_per_cluster cs
       (case map_of d (cluster (well candidate)) of
          None \<Rightarrow> dict_set (cluster (well candidate)) candidate d
        | Some existing \<Rightarrow>
            if date_or_min existing > date_or_min candidate
            then dict_set (cluster (well candidate)) candidate d
            else d)"

definition filter_candidates ::
  "PlanBuilder \<Rightarrow> WellPlanContext list \<Rightarrow> Plan \<Rightarrow> 'r RiskStrategy option \<Rightarrow> 'r \<Rightarrow> bool
   \<Rightarrow> error + WellPlanContext list" where
  "filter_candidates self candidates p risk rs ordered =
     (let candidates1 = (if ordered \<and> candidates \<noteq> []
                         then map snd (earliest_per_cluster candidates [])
                         else candidates);
          candidates2 = (case risk of
                           None \<Rightarrow> candidates1
                         | Some strategy \<Rightarrow> map (apply_risk strategy rs) candidates1)
      in case map_result (cost_function self) candidates2 of
        Inl e \<Rightarrow> Inl e
      | Inr candidates3 \<Rightarrow>
          Inr (filter (\<lambda>c. \<not> constraints_violated (constraints self) p c) candidates3))"

text \<open>
  The annealing selection of one candidate returns the first candidate when no candidate
  has a cost, and otherwise a candidate with a cost that its random search ends on; the
  search is represented by its outcome, the position \<open>draw\<close> among the candidates with a
  cost.
\<close>

definition simulated_annealing_selection :: "nat \<Rightarrow> WellPlanContext list \<Rightarrow> WellPlanContext" where
  "simulated_annealing_selection draw candidates =
     (let valid_candidates = filter (\<lambda>c. cost c \<noteq> None) candidates
      in if valid_candidates = [] then candidates ! 0
         else valid_candidates ! (draw mod length valid_candidates))"

definition select_best_candidate ::
  "nat \<Rightarrow> WellPlanContext list \<Rightarrow> bool \<Rightarrow> error + WellPlanContext" where
  "select_best_candidate draw candidates ko =
     (if ko then py_min_key (\<lambda>x. init_entry_date (well x)) candidates
      else if candidates = [] then Inl ValueError
      else Inr (simulated_annealing_selection draw candidates))"

definition py_remove :: "'a \<Rightarrow> 'a list \<Rightarrow> error + 'a list" where
  \<comment> \<open>\<open>xs.remove(x)\<close>: removes the first equal item, ValueError when there is none\<close>
  "py_remove x xs = (if x \<in> set xs then Inr (remove1 x xs) else Inl ValueError)"

definition next_period_start :: "PlanBuilder \<Rightarrow> datetime \<Rightarrow> datetime" where
  \<comment> \<open>\<open>datetime((next_year or current_start.year+1), 1, 1)\<close>\<close>
  "next_period_start self start =
     (case get_period_end (constraints self) (year start) of
        None \<Rightarrow> datetime_jan1 (year start + 1)
      | Some next_year \<Rightarrow>
          if next_year = 0 then datetime_jan1 (year start + 1) else datetime_jan1 next_year)"

definition compile_step ::
  "PlanBuilder \<Rightarrow> ('m, 'r) compile_args \<Rightarrow> ('m, 'r) loop_state
   \<Rightarrow> error + ('m, 'r) loop_state step" where
  \<comment> \<open>the body of the loop of \<open>compile\<close>\<close>
  "compile_step self args st =
     (case build_contexts self (manager_methods args) (ls_manager st) (remaining_wells st)
             (current_start st) of
        Inl e \<Rightarrow> Inl e
      | Inr candidates \<Rightarrow>
          if candidates = [] then Inr Break
          else
            (case filter_candidates self candidates (ls_plan st) (risk_strategy args)
                    (ls_risk st) (cluster_ordered args) of
               Inl e \<Rightarrow> Inl e
             | Inr candidates' \<Rightarrow>
                 if candidates' = []
                 then Inr (Continue (st\<lparr>current_start := next_period_start self (current_start st),
                                         iteration := iteration st + 1\<rparr>))
                 else
                   (case select_best_candidate (rnd args (2 * iteration st)) candidates'
                           (keep_order args) of
                      Inl e \<Rightarrow> Inl e
                    | Inr best_candidate \<Rightarrow>
                        (let manager' = assign_of (manager_methods args) (ls_manager st)
                                          best_candidate
                         in case py_remove (well best_candidate) (remaining_wells st) of
                           Inl e \<Rightarrow> Inl e
                         | Inr remaining' \<Rightarrow>
                             (case risk_strategy args of
                                None \<Rightarrow>
                                  Inr (Continue (st\<lparr>remaining_wells := remaining',
                                     ls_plan := add_context (ls_plan st) best_candidate,
                                     ls_manager := manager',
                                     iteration := iteration st + 1\<rparr>))
                              | Some strategy \<Rightarrow>
                                  (case define_risk strategy (rnd args (2 * iteration st + 1))
                                          (ls_risk st) best_candidate of
                                     (rs', risked) \<Rightarrow>
                                       (case cost_function self risked of
                                          Inl e \<Rightarrow> Inl e
                                        | Inr best_candidate' \<Rightarrow>
                                            Inr (Continue (st\<lparr>remaining_wells := remaining',
                                               ls_plan := add_context (ls_plan st) best_candidate',
                                               ls_manager := manager', ls_risk := rs',
                                               iteration := iteration st + 1\<rparr>)))))))))"

lemma get_period_end_later: "get_period_end cs y = Some n \<Longrightarrow> y < n"
  by (auto simp: get_period_end_def find_Some_iff)

lemma next_period_start_later: "start < next_period_start self start"
  by (auto simp: next_period_start_def jan1_next_year split: option.splits
           dest!: get_period_end_later intro: jan1_after)

lemma py_remove_length: "py_remove x xs = Inr ys \<Longrightarrow> length ys < length xs"
  by (auto simp: py_remove_def length_remove1 split: if_splits) (cases xs, auto)

lemma compile_step_progress:
  assumes "compile_step self args st = Inr (Continue st')"
  shows "length (remaining_wells st') < length (remaining_wells st)
         \<or> (remaining_wells st' = remaining_wells st \<and> current_start st < current_start st')"
  using assms next_period_start_later [of "current_start st" self]
  by (auto simp: compile_step_def Let_def split: sum.splits if_splits option.splits prod.splits
           dest: py_remove_length)

function compile_loop ::
  "PlanBuilder \<Rightarrow> ('m, 'r) compile_args \<Rightarrow> ('m, 'r) loop_state \<Rightarrow> error + Plan" where
  "compile_loop self args st =
     (if remaining_wells st \<noteq> [] \<and> current_start st < pb_end self then
        (case compile_step self args st of
           Inl e \<Rightarrow> Inl e
         | Inr Break \<Rightarrow> Inr (ls_plan st)
         | Inr (Continue st') \<Rightarrow> compile_loop self args st')
      else Inr (ls_plan st))"
  by pat_completeness auto
termination
proof (relation "measures [\<lambda>(self, args, st). length (remaining_wells st),
                            \<lambda>(self, args, st). nat (pb_end self - current_start st)]")
  show "wf (measures [\<lambda>(self, args, st). length (remaining_wells st),
                       \<lambda>(self :: PlanBuilder, args :: ('m, 'r) compile_args,
                          st :: ('m, 'r) loop_state). nat (pb_end self - current_start st)])"
    by simp
next
  fix self :: PlanBuilder and args :: "('m, 'r) compile_args"
    and st st' :: "('m, 'r) loop_state" and x
  assume guard: "remaining_wells st \<noteq> [] \<and> current_start st < pb_end self"
     and "compile_step self args st = Inr x" and "x = Continue st'"
  then have "compile_step self args st = Inr (Continue st')" by simp
  from compile_step_progress [OF this] guard
  show "((self, args, st'), (self, args, st))
        \<in> measures [\<lambda>(self, args, st). length (remaining_wells st),
                     \<lambda>(self, args, st). nat (pb_end self - current_start st)]"
    by auto
qed

declare compile_loop.simps [simp del]

definition compile ::
  "PlanBuilder \<Rightarrow> ('m, 'r) compile_args \<Rightarrow> nat \<Rightarrow> Well list \<Rightarrow> 'm \<Rightarrow> 'r \<Rightarrow> error + Plan" where
  \<comment> \<open>\<open>pid\<close> is the identifier that the new plan gets; \<open>rs\<close> is the state of the risk
      strategy, read only when there is one\<close>
  "compile self args pid wells manager rs =
     compile_loop self args
       \<lparr>current_start = pb_start self, remaining_wells = wells,
        ls_plan = \<lparr>plan_id = pid, well_plans = []\<rparr>, ls_manager = manager, ls_risk = rs,
        iteration = 0\<rparr>"

text \<open>The states that the loop of \<open>compile\<close> passes through, from the state \<open>s0\<close>.\<close>

inductive reachable ::
  "PlanBuilder \<Rightarrow> ('m, 'r) compile_args \<Rightarrow> ('m, 'r) loop_state \<Rightarrow> ('m, 'r) loop_state \<Rightarrow> bool"
  for self :: PlanBuilder and args :: "('m, 'r) compile_args" and s0 :: "('m, 'r) loop_state"
  where
  start: "reachable self args s0 s0"
| iterate: "reachable self args s0 st
     \<Longrightarrow> remaining_wells st \<noteq> [] \<and> current_start st < pb_end self
     \<Longrightarrow> compile_step self args st = Inr (Continue st')
     \<Longrightarrow> reachable self args s0 st'"

definition cluster_free :: "Well list \<Rightarrow> Well \<Rightarrow> bool" where
  \<comment> \<open>no well of the pool is in the cluster that \<open>w\<close> depends on\<close>
  "cluster_free pool w \<longleftrightarrow>
     (\<forall>C. depend_from_cluster w = Some C \<longrightarrow> (\<forall>w' \<in> set pool. cluster w' \<noteq> C))"

definition precedence_inv :: "('m, 'r) loop_state \<Rightarrow> bool" where
  \<comment> \<open>no well that a planned well depends on by its cluster is still in the pool\<close>
  "precedence_inv st \<longleftrightarrow>
     (\<forall>ctx \<in> set (well_plans (ls_plan st)). cluster_free (remaining_wells st) (well ctx))"

definition plan_order_inv :: "('m, 'r) loop_state \<Rightarrow> bool" where
  \<comment> \<open>no well that a planned well depends on by its cluster is planned after it or is
      still in the pool\<close>
  "plan_order_inv st \<longleftrightarrow>
     (\<forall>i < length (well_plans (ls_plan st)).
        cluster_free (map well (drop i (well_plans (ls_plan st))) @ remaining_wells st)
          (well (well_plans (ls_plan st) ! i)))"

section \<open>Example data\<close>

definition team1 :: Team where
  "team1 = \<lparr>team_id = 1, supported_tasks = {DRILLING}\<rparr>"

definition team2 :: Team where
  "team2 = \<lparr>team_id = 2, supported_tasks = {DRILLING}\<rparr>"

definition well_A :: Well where
  "well_A = \<lparr>well_name = ''W1'', cluster = ''A'', well_field = ''F'', layer = ''L'',
     purpose = ''oil'', well_type = ''DRILLING'', oil_rate = 10, liq_rate = 20,
     well_length = 1000, init_entry_date = Some (datetime_jan1 2025), readiness_date = None,
     depend_from_cluster = None, tasks = [DRILLING]\<rparr>"

definition ctx_of :: "Well \<Rightarrow> real option \<Rightarrow> WellPlanContext" where
  "ctx_of w c = \<lparr>well = w, c_start = datetime_jan1 2025, c_end = datetime_jan1 2030,
     entries = [], cost = c, oil_prod_profile = [], liq_prod_profile = [],
     metadata = Map.empty\<rparr>"

definition ex_movement :: DistanceTeamMovement where
  "ex_movement = DistanceTeamMovement_init
     [''A'' \<mapsto> \<lparr>cx = 0, cy = 0, cz = 0\<rparr>, ''B'' \<mapsto> \<lparr>cx = 360000, cy = 0, cz = 0\<rparr>]"

definition ex_pool :: TeamPool where
  "ex_pool = [DRILLING \<mapsto> [team1, team2]]"

definition ex_manager :: TeamManager where
  "ex_manager = TeamManager_init ex_pool SimpleTeamMovement_get_move_days True
     (Some [(2025, [(DRILLING, 1)])])"

definition ex_entry :: "Team \<Rightarrow> ScheduleEntry" where
  "ex_entry t = \<lparr>e_task = DRILLING, e_team = t, e_start = datetime_jan1 2025,
     e_end = datetime_jan1 2025 + timedelta_of_days 30, travel_time = timedelta_of_days 14\<rparr>"

definition ex_ctx :: "Team \<Rightarrow> WellPlanContext" where
  "ex_ctx t = (ctx_of well_A None)\<lparr>entries := [ex_entry t]\<rparr>"

definition ex_calls :: "call list" where
  "ex_calls = [Assign (ex_ctx team1), GetAssignments (ex_ctx team2), Assign (ex_ctx team2)]"

definition ex_manager3 :: TeamManager where
  \<comment> \<open>no limits; team 1, the first team of the pool, is busy drilling a well of cluster A
      in January 2025\<close>
  "ex_manager3 = assign (TeamManager_init ex_pool SimpleTeamMovement_get_move_days True None)
     (ex_ctx team1)"

definition ex_manager2 :: TeamManager where
  \<comment> \<open>team 1 has drilled a well of cluster A in 2025 and fills the 2025 limit\<close>
  "ex_manager2 = assign ex_manager (ex_ctx team1)"

definition ex_npv :: NPV where
  "ex_npv = \<lparr>capex_cost = BaseCapex_compute
                 \<lparr>build_cost_per_metr = [''DRILLING'' \<mapsto> 2], equipment = 250\<rparr>,
     opex_cost = BaseOpex_compute (BaseOpex_init 0 0 600 600),
     discount_rate = 1 / 8, oil_price = 10,
     npv_start = datetime_jan1 2025 + timedelta_of_days 30 - timedelta_of_days 365,
     travel_cost_per_day = 10\<rparr>"

definition ex_gtm_entry :: ScheduleEntry where
  "ex_gtm_entry = \<lparr>e_task = GTM, e_team = team1,
     e_start = datetime_jan1 2025 + timedelta_of_days 10,
     e_end = datetime_jan1 2025 + timedelta_of_days 30, travel_time = timedelta_of_days 3\<rparr>"

definition ex_npv_ctx :: WellPlanContext where
  \<comment> \<open>the drilling entry is the second entry\<close>
  "ex_npv_ctx = (ctx_of well_A None)\<lparr>entries := [ex_gtm_entry, ex_entry team1],
     oil_prod_profile := [100], liq_prod_profile := [150],
     metadata := [''team_count_drilling'' \<mapsto> 2]\<rparr>"

definition ex_npv_ctx_gtm :: WellPlanContext where
  \<comment> \<open>no drilling entry\<close>
  "ex_npv_ctx_gtm = ex_npv_ctx\<lparr>entries := [ex_gtm_entry]\<rparr>"

definition ex_plan :: Plan where
  "ex_plan = \<lparr>plan_id = 0, well_plans = [ex_ctx team1]\<rparr>"

definition ex_draws :: "mutation \<Rightarrow> draws" where
  "ex_draws mt = \<lparr>mutation_type = mt, sample_first = 0, sample_second = 0, randint_idx = 0,
     randint_days = 37, choice_entry = 0, choice_team = 1\<rparr>"

definition well_B :: Well where
  \<comment> \<open>a well of cluster B that may only be drilled after cluster A\<close>
  "well_B = well_A\<lparr>well_name := ''W2'', cluster := ''B'',
     init_entry_date := Some (datetime_jan1 2024), depend_from_cluster := Some ''A''\<rparr>"

definition ex_manager0 :: TeamManager where
  "ex_manager0 = TeamManager_init ex_pool SimpleTeamMovement_get_move_days True None"

definition ex_builder :: PlanBuilder where
  "ex_builder = \<lparr>pb_start = datetime_jan1 2025, pb_end = datetime_jan1 2030,
     infra = SimpleInfrastructure_get_ready_date,
     profiler = (\<lambda>c. c\<lparr>oil_prod_profile := [100], liq_prod_profile := [150]\<rparr>),
     cost_function = (\<lambda>c. Inr (c\<lparr>cost := Some 1\<rparr>)),
     constraints = [], use_drill_team_penalty = True\<rparr>"

definition ex_args :: "(nat \<Rightarrow> nat) \<Rightarrow> (TeamManager, unit) compile_args" where
  "ex_args r = \<lparr>manager_methods = TeamManager_methods, risk_strategy = None,
     keep_order = True, cluster_ordered = True, rnd = r\<rparr>"

definition ex_state0 :: "Well list \<Rightarrow> (TeamManager, unit) loop_state" where
  \<comment> \<open>the state in which \<open>compile\<close> enters its loop\<close>
  "ex_state0 wells = \<lparr>current_start = datetime_jan1 2025, remaining_wells = wells,
     ls_plan = \<lparr>plan_id = 0, well_plans = []\<rparr>, ls_manager = ex_manager0, ls_risk = (),
     iteration = 0\<rparr>"



section \<open>The next available date of a context\<close>

lemma fold_max_Max:
  "fold (\<lambda>x m. max m (f x)) es (a::int) = Max (insert a (f ` set es))"
proof (induction es arbitrary: a)
  case Nil
  show ?case by simp
next
  case (Cons x es)
  have "Max (insert (max a (f x)) (f ` set es)) = Max (insert a (insert (f x) (f ` set es)))"
  proof (cases "es = []")
    case True
    then show ?thesis by (simp add: max.commute)
  next
    case False
    then show ?thesis by (simp add: max.assoc)
  qed
  then show ?case using Cons [of "max a (f x)"] by simp
qed

lemma get_next_available_date_Max:
  "get_next_available_date ctx
   = (if entries ctx = [] then c_start ctx else Max (set (map e_end (entries ctx))))"
  by (cases "entries ctx") (simp_all add: get_next_available_date_def fold_max_Max)

section \<open>Plan aggregation\<close>

lemma foldl_plus_sum_list: "foldl (+) a xs = a + sum_list (xs :: real list)"
  by (induction xs arbitrary: a) simp_all

lemma py_sum_sum_list: "py_sum xs = sum_list xs"
  by (simp add: py_sum_def foldl_plus_sum_list)

lemma non_null_costs_sum:
  "sum_list [the (cost wp). wp \<leftarrow> wps, cost wp \<noteq> None]
   = (\<Sum>wp \<leftarrow> wps. case cost wp of None \<Rightarrow> 0 | Some c \<Rightarrow> c)"
  by (induction wps) (auto split: option.splits)

text \<open>
  C7. \<open>Plan.total_profit()\<close> is the sum of the costs of the well plans whose cost is not
  None; a plan without well plans, or whose costs are all None, has total profit 0.
\<close>

theorem total_profit_sum_non_null:
  "total_profit p = (\<Sum>wp \<leftarrow> well_plans p. case cost wp of None \<Rightarrow> 0 | Some c \<Rightarrow> c)
   \<and> (well_plans p = [] \<longrightarrow> total_profit p = 0)
   \<and> ((\<forall>wp \<in> set (well_plans p). cost wp = None) \<longrightarrow> total_profit p = 0)"
proof -
  have eq: "total_profit p = (\<Sum>wp \<leftarrow> well_plans p. case cost wp of None \<Rightarrow> 0 | Some c \<Rightarrow> c)"
    by (simp only: total_profit_def py_sum_sum_list non_null_costs_sum)
  have "(\<forall>wp \<in> set wps. cost wp = None)
        \<Longrightarrow> (\<Sum>wp \<leftarrow> wps. case cost wp of None \<Rightarrow> 0 | Some c \<Rightarrow> c) = (0::real)"
    for wps :: "WellPlanContext list"
    by (induction wps) simp_all
  with eq show ?thesis by auto
qed

theorem total_profit_sum_non_null_witness:
  "total_profit \<lparr>plan_id = 0,
      well_plans = [ctx_of well_A (Some 5), ctx_of well_A None, ctx_of well_A (Some (- 2))]\<rparr> = 3
   \<and> total_profit \<lparr>plan_id = 0, well_plans = []\<rparr> = 0
   \<and> total_profit \<lparr>plan_id = 0, well_plans = [ctx_of well_A None]\<rparr> = 0"
  using total_profit_sum_non_null
          [of "\<lparr>plan_id = 0,
             well_plans = [ctx_of well_A (Some 5), ctx_of well_A None, ctx_of well_A (Some (- 2))]\<rparr>"]
        total_profit_sum_non_null [of "\<lparr>plan_id = 0, well_plans = []\<rparr>"]
        total_profit_sum_non_null [of "\<lparr>plan_id = 0, well_plans = [ctx_of well_A None]\<rparr>"]
  by (simp add: ctx_of_def)

section \<open>Travel time between clusters\<close>

lemma ex_distance:
  "distance_to \<lparr>cx = 0, cy = 0, cz = 0\<rparr> \<lparr>cx = 360000, cy = 0, cz = 0\<rparr> = 360000"
proof -
  have "(0 - 360000)\<^sup>2 + (0 - 0)\<^sup>2 + (0 - 0)\<^sup>2 = (360000::real)\<^sup>2" by simp
  then show ?thesis by (simp only: distance_to_def Coordinate.simps real_sqrt_abs)
qed

text \<open>
  C8, as stated, fails: between two distinct clusters 360 km apart, with the default
  minimum of 90 days and the default speed of 15 km/h, the distance-derived estimate is one
  day and \<open>DistanceTeamMovement.get_move_days\<close> returns 91 days, not the maximum of the
  estimate and the minimum (90 days).
\<close>

theorem distance_move_days_not_max:
  "DistanceTeamMovement_get_move_days ex_movement (Some ''A'') ''B'' = Inr 91
   \<and> DistanceTeamMovement_get_move_days ex_movement (Some ''A'') ''B''
       \<noteq> Inr (max (distance_to \<lparr>cx = 0, cy = 0, cz = 0\<rparr> \<lparr>cx = 360000, cy = 0, cz = 0\<rparr>
                      / (team_speed_kmh ex_movement * 1000) / 24)
                    (min_days_between_clusters ex_movement))"
  by (simp add: DistanceTeamMovement_get_move_days_def ex_movement_def
        DistanceTeamMovement_init_def ex_distance)

text \<open>
  C8, amended. For two distinct clusters that both have coordinates, and a non-zero team
  speed, \<open>DistanceTeamMovement.get_move_days\<close> returns the minimum days between clusters
  plus the distance-derived days (Euclidean 3D distance / (speed * 1000) / 24), which is at
  least the minimum when the speed is positive; when the team has no current cluster or one
  of the clusters has no coordinates it returns the minimum; for a same-cluster move it
  returns \<open>same_cluster_move_days\<close> (1 by default). \<open>SimpleTeamMovement\<close> returns 1 for the
  same cluster and 14 otherwise.
\<close>

theorem distance_move_days_sum:
  "(f \<noteq> t \<and> cluster_coordinates m f = Some p \<and> cluster_coordinates m t = Some q
      \<and> team_speed_kmh m \<noteq> 0
    \<longrightarrow> DistanceTeamMovement_get_move_days m (Some f) t
          = Inr (min_days_between_clusters m + distance_to p q / (team_speed_kmh m * 1000) / 24)
        \<and> (0 < team_speed_kmh m
           \<longrightarrow> min_days_between_clusters m
               \<le> min_days_between_clusters m + distance_to p q / (team_speed_kmh m * 1000) / 24))
   \<and> (f \<noteq> t \<and> (cluster_coordinates m f = None \<or> cluster_coordinates m t = None)
      \<longrightarrow> DistanceTeamMovement_get_move_days m (Some f) t = Inr (min_days_between_clusters m))
   \<and> DistanceTeamMovement_get_move_days m None t = Inr (min_days_between_clusters m)
   \<and> DistanceTeamMovement_get_move_days m (Some t) t = Inr (same_cluster_move_days m)
   \<and> same_cluster_move_days (DistanceTeamMovement_init coords) = 1
   \<and> SimpleTeamMovement_get_move_days (Some t) t = Inr 1
   \<and> (from_cluster \<noteq> Some t \<longrightarrow> SimpleTeamMovement_get_move_days from_cluster t = Inr 14)"
proof -
  have "0 \<le> distance_to p q" by (simp add: distance_to_def)
  then have "0 < team_speed_kmh m \<Longrightarrow> 0 \<le> distance_to p q / (team_speed_kmh m * 1000) / 24"
    by simp
  then show ?thesis
    by (auto simp: DistanceTeamMovement_get_move_days_def SimpleTeamMovement_get_move_days_def
          DistanceTeamMovement_init_def split: option.splits)
qed

theorem distance_move_days_sum_witness:
  "DistanceTeamMovement_get_move_days ex_movement (Some ''A'') ''B'' = Inr (90 + 360000 / (15 * 1000) / 24)
   \<and> DistanceTeamMovement_get_move_days ex_movement (Some ''A'') ''C'' = Inr 90
   \<and> DistanceTeamMovement_get_move_days ex_movement (Some ''B'') ''B'' = Inr 1
   \<and> SimpleTeamMovement_get_move_days (Some ''A'') ''A'' = Inr 1
   \<and> SimpleTeamMovement_get_move_days None ''A'' = Inr 14"
  using distance_move_days_sum [of "''A''" "''B''" ex_movement "\<lparr>cx = 0, cy = 0, cz = 0\<rparr>"
          "\<lparr>cx = 360000, cy = 0, cz = 0\<rparr>" _ None]
        distance_move_days_sum [of "''A''" "''C''" ex_movement]
        distance_move_days_sum [of _ "''B''" ex_movement]
        distance_move_days_sum [of _ "''A''" _ _ _ _ None]
  by (simp add: ex_movement_def DistanceTeamMovement_init_def ex_distance)

section \<open>Yearly limits on the number of distinct teams\<close>

lemma record_year_limits [simp]: "limits (record_year task team y self) = limits self"
  by (simp add: record_year_def Let_def split: option.splits)

lemma record_year_usage_other:
  "(y', t') \<noteq> (y, task)
   \<Longrightarrow> usage_counts (record_year task team y self) y' t' = usage_counts self y' t'"
  by (auto simp: record_year_def Let_def split: option.splits)

lemma record_year_usage_between:
  "usage_counts self y' t' \<subseteq> usage_counts (record_year task team y self) y' t'
   \<and> usage_counts (record_year task team y self) y' t' \<subseteq> insert team (usage_counts self y' t')"
  by (auto simp: record_year_def Let_def split: option.splits if_splits)

lemma configured_limit_record_year [simp]:
  "configured_limit (record_year task team y self) = configured_limit self"
  by (rule ext, rule ext) (simp add: configured_limit_def)

lemma record_year_quota: "quota_inv self \<Longrightarrow> quota_inv (record_year task team y self)"
proof -
  assume inv: "quota_inv self"
  let ?self' = "record_year task team y self"
  show "quota_inv ?self'"
    unfolding quota_inv_def
  proof (intro allI conjI impI)
    fix y' t'
    have "usage_counts ?self' y' t' \<subseteq> insert team (usage_counts self y' t')"
      using record_year_usage_between by blast
    moreover have "finite (insert team (usage_counts self y' t'))"
      using inv by (simp add: quota_inv_def)
    ultimately show "finite (usage_counts ?self' y' t')" by (rule finite_subset)
  next
    fix y' t' L
    assume "configured_limit ?self' y' t' = Some L"
    then have L: "configured_limit self y' t' = Some L" by simp
    have old: "int (card (usage_counts self y' t')) \<le> max 0 L"
      and fin: "finite (usage_counts self y' t')"
      using inv L by (simp_all add: quota_inv_def)
    show "int (card (usage_counts ?self' y' t')) \<le> max 0 L"
    proof (cases "(y', t') = (y, task)")
      case False
      then show ?thesis using old by (simp add: record_year_usage_other)
    next
      case True
      then have yt: "y' = y" "t' = task" by simp_all
      from L yt obtain yl where yl: "map_of (limits self) y = Some yl" "map_of yl task = Some L"
        by (auto simp: configured_limit_def split: option.splits)
      show ?thesis
      proof (cases "check_limit self task y team")
        case False
        then have "usage_counts ?self' y task = usage_counts self y task"
          using yl by (simp add: record_year_def)
        then show ?thesis using old yt by simp
      next
        case True
        then have upd: "usage_counts ?self' y task = insert team (usage_counts self y task)"
          using yl by (simp add: record_year_def)
        from yl have ne: "limits self \<noteq> []" "yl \<noteq> []" by auto
        show ?thesis
        proof (cases "team \<in> usage_counts self y task")
          case True
          then show ?thesis using upd old yt by (simp add: insert_absorb)
        next
          case False
          then have "int (card (usage_counts self y task)) < L"
            using \<open>check_limit self task y team\<close> yl ne by (simp add: check_limit_def)
          then show ?thesis using upd fin yt False by simp
        qed
      qed
    qed
  qed
qed

lemma fold_record_year_quota:
  "quota_inv self \<Longrightarrow> quota_inv (fold (record_year task team) ys self)"
  by (induction ys arbitrary: self) (simp_all add: record_year_quota)

lemma fold_record_year_between:
  "usage_counts self y' t' \<subseteq> usage_counts (fold (record_year task team) ys self) y' t'
   \<and> usage_counts (fold (record_year task team) ys self) y' t'
       \<subseteq> insert team (usage_counts self y' t')"
proof (induction ys arbitrary: self)
  case Nil
  show ?case by auto
next
  case (Cons y ys)
  show ?case
    using Cons.IH [of "record_year task team y self"]
          record_year_usage_between [of self y' t' task team y]
    by auto
qed

lemma fold_record_year_limits [simp]:
  "limits (fold (record_year task team) ys self) = limits self"
  by (induction ys arbitrary: self) simp_all

lemma quota_inv_states:
  "quota_inv (self\<lparr>states := s\<rparr>) = quota_inv self"
  by (simp add: quota_inv_def configured_limit_def)

lemma assign_entry_quota: "quota_inv self \<Longrightarrow> quota_inv (assign_entry w entry self)"
  by (simp add: assign_entry_def record_usage_def fold_record_year_quota quota_inv_states)

lemma fold_assign_entry_quota:
  "quota_inv self \<Longrightarrow> quota_inv (fold (assign_entry w) es self)"
  by (induction es arbitrary: self) (simp_all add: assign_entry_quota)

lemma assign_quota: "quota_inv self \<Longrightarrow> quota_inv (assign self context)"
  by (simp add: assign_def fold_assign_entry_quota)

lemma run_calls_quota: "quota_inv self \<Longrightarrow> quota_inv (run_calls calls self)"
  unfolding run_calls_def
proof (induction calls arbitrary: self)
  case Nil
  then show ?case by simp
next
  case (Cons c calls)
  then show ?case by (cases c) (simp_all add: assign_quota)
qed

lemma assign_entry_limits [simp]: "limits (assign_entry w entry self) = limits self"
  by (simp add: assign_entry_def record_usage_def)

lemma fold_assign_entry_limits [simp]: "limits (fold (assign_entry w) es self) = limits self"
  by (induction es arbitrary: self) simp_all

lemma assign_limits [simp]: "limits (assign self context) = limits self"
  by (simp add: assign_def)

lemma run_calls_limits: "limits (run_calls calls self) = limits self"
  unfolding run_calls_def
proof (induction calls arbitrary: self)
  case Nil
  show ?case by simp
next
  case (Cons c calls)
  then show ?case by (cases c) simp_all
qed

lemma record_usage_already_counted:
  assumes "team \<in> usage_counts self y task"
  shows "usage_counts (record_usage self task assignment_year team) y task
         = usage_counts self y task"
  using fold_record_year_between [of self y task task team] assms
  unfolding record_usage_def Let_def by blast

lemma check_limit_already_counted:
  "team \<in> usage_counts self y task \<Longrightarrow> check_limit self task y team"
  by (simp add: check_limit_def split: option.splits)

text \<open>
  C2. Starting from a manager whose usage sets are empty (a new manager), after any
  sequence of \<open>get_assignments\<close> and \<open>assign\<close> calls the set of teams recorded for a
  task in a year with a configured limit \<open>L\<close> is finite and has at most \<open>L\<close> members
  (none when \<open>L\<close> is negative); a team that is already in the set of a (year, task) pair
  passes \<open>_check_limit\<close> for that pair, and \<open>_record_usage\<close> leaves that set as it is.
\<close>

theorem quota_conformance:
  assumes "usage_counts self0 = (\<lambda>y task. {})"
      and "self = run_calls calls self0"
  shows "(\<forall>y task L. configured_limit self y task = Some L
            \<longrightarrow> finite (usage_counts self y task)
                \<and> int (card (usage_counts self y task)) \<le> max 0 L)
         \<and> (\<forall>y task team assignment_year. team \<in> usage_counts self y task
            \<longrightarrow> check_limit self task y team
                \<and> usage_counts (record_usage self task assignment_year team) y task
                    = usage_counts self y task)"
proof -
  have "quota_inv self0" using assms(1) by (simp add: quota_inv_def)
  then have "quota_inv self" using assms(2) by (simp add: run_calls_quota)
  then show ?thesis
    by (simp add: quota_inv_def record_usage_already_counted check_limit_already_counted)
qed

lemma ex_calls_usage:
  "usage_counts (run_calls ex_calls ex_manager) 2025 DRILLING = {team1}"
  by (simp add: ex_calls_def run_calls_def ex_manager_def TeamManager_init_def assign_def
        assign_entry_def record_usage_def record_year_def check_limit_def dict_keys_def
        ex_ctx_def ex_entry_def ctx_of_def year_jan1 team1_def team2_def)

lemma ex_calls_limits:
  "limits (run_calls ex_calls ex_manager) = [(2025, [(DRILLING, 1)])]"
  by (simp add: run_calls_limits ex_manager_def TeamManager_init_def)

theorem quota_conformance_witness:
  "usage_counts ex_manager = (\<lambda>y task. {})
   \<and> configured_limit (run_calls ex_calls ex_manager) 2025 DRILLING = Some 1
   \<and> usage_counts (run_calls ex_calls ex_manager) 2025 DRILLING = {team1}
   \<and> int (card (usage_counts (run_calls ex_calls ex_manager) 2025 DRILLING)) \<le> max 0 1
   \<and> check_limit (run_calls ex_calls ex_manager) DRILLING 2025 team1
   \<and> usage_counts (record_usage (run_calls ex_calls ex_manager) DRILLING 2025 team1) 2025 DRILLING
       = {team1}"
proof -
  have h: "usage_counts ex_manager = (\<lambda>y task. {})"
    by (simp add: ex_manager_def TeamManager_init_def)
  have l: "configured_limit (run_calls ex_calls ex_manager) 2025 DRILLING = Some 1"
    by (simp add: configured_limit_def ex_calls_limits)
  show ?thesis
    using quota_conformance [OF h refl, of ex_calls] h l ex_calls_usage by auto
qed

section \<open>Earliest-finish assignment\<close>

lemma find_start_loop_Some: "\<exists>t. find_start_loop self task team cur = Some t"
proof (induction self task team cur rule: find_start_loop.induct)
  case (1 self task team current_start)
  show ?case
  proof (cases "check_limit self task (year current_start) team")
    case True
    then show ?thesis by (subst find_start_loop.simps) simp
  next
    case False
    with 1 [OF refl] show ?thesis by (subst find_start_loop.simps) simp
  qed
qed

lemma find_start_loop_earliest:
  "find_start_loop self task team base = Some st \<Longrightarrow> earliest_start self task team base st"
proof (induction self task team base rule: find_start_loop.induct)
  case (1 self task team base)
  show ?case
  proof (cases "check_limit self task (year base) team")
    case True
    with 1(2) have "st = base" by (subst (asm) find_start_loop.simps) simp
    with True show ?thesis by (simp add: earliest_start_def)
  next
    case False
    with 1(2) have "find_start_loop self task team (datetime_jan1 (year base + 1)) = Some st"
      by (subst (asm) find_start_loop.simps) simp
    from 1(1) [OF refl False this]
    have ih: "earliest_start self task team (datetime_jan1 (year base + 1)) st" .
    then have ok: "check_limit self task (year st) team" by (simp add: earliest_start_def)
    from ih have "\<exists>y. year base < y \<and> st = datetime_jan1 y
              \<and> (\<forall>y'. year base \<le> y' \<and> y' < y \<longrightarrow> \<not> check_limit self task y' team)"
      unfolding earliest_start_def year_jan1
    proof (elim conjE disjE exE)
      assume "check_limit self task (year base + 1) team" "st = datetime_jan1 (year base + 1)"
      then show ?thesis
        using False by (intro exI [of _ "year base + 1"]) auto
    next
      fix y
      assume y: "year base + 1 < y" "st = datetime_jan1 y"
        "\<forall>y'. year base + 1 \<le> y' \<and> y' < y \<longrightarrow> \<not> check_limit self task y' team"
      have "\<not> check_limit self task y' team" if "year base \<le> y'" "y' < y" for y'
      proof (cases "y' = year base")
        case True
        with False show ?thesis by simp
      next
        case False
        with that y(3) show ?thesis by simp
      qed
      with y(1,2) show ?thesis by (intro exI [of _ y]) auto
    qed
    with ok show ?thesis by (simp add: earliest_start_def)
  qed
qed

lemma earliest_start_unique:
  assumes "earliest_start self task team base s1" and "earliest_start self task team base s2"
  shows "s1 = s2"
proof (cases "check_limit self task (year base) team")
  case True
  have "s = base" if "earliest_start self task team base s" for s
    using that True unfolding earliest_start_def by auto
  from this [OF assms(1)] this [OF assms(2)] show ?thesis by simp
next
  case False
  from assms(1) False obtain y1 where y1: "year base < y1" "s1 = datetime_jan1 y1"
      "\<forall>y'. year base \<le> y' \<and> y' < y1 \<longrightarrow> \<not> check_limit self task y' team"
      "check_limit self task y1 team"
    unfolding earliest_start_def by (auto simp: year_jan1)
  from assms(2) False obtain y2 where y2: "year base < y2" "s2 = datetime_jan1 y2"
      "\<forall>y'. year base \<le> y' \<and> y' < y2 \<longrightarrow> \<not> check_limit self task y' team"
      "check_limit self task y2 team"
    unfolding earliest_start_def by (auto simp: year_jan1)
  have "\<not> y1 < y2" using y1(1,4) y2(3) by auto
  moreover have "\<not> y2 < y1" using y2(1,4) y1(3) by auto
  ultimately show ?thesis using y1(2) y2(2) by simp
qed

lemma offers_window_unique:
  assumes "offers_window self task ctx team s1 e1 t1"
      and "offers_window self task ctx team s2 e2 t2"
  shows "s1 = s2 \<and> e1 = e2 \<and> t1 = t2"
proof -
  let ?na = "if entries ctx = [] then c_start ctx else Max (set (map e_end (entries ctx)))"
  from assms(1) obtain state d where a: "map_of (states self) team = Some state"
      "movement self (current_cluster state) (cluster (well ctx)) = Inr d"
      "t1 = timedelta_of_float_days d"
      "earliest_start self task team (max (available_from state + t1) ?na) s1"
      "e1 = s1 + duration task"
    unfolding offers_window_def by blast
  from assms(2) a(1,2) have b: "t2 = timedelta_of_float_days d"
      "earliest_start self task team (max (available_from state + t2) ?na) s2"
      "e2 = s2 + duration task"
    unfolding offers_window_def by auto
  have t: "t1 = t2" using a(3) b(1) by simp
  with a(4) b(2) have "s1 = s2" by (auto intro: earliest_start_unique)
  with t a(5) b(3) show ?thesis by simp
qed

lemma offers_window_cong:
  "well c1 = well c2 \<Longrightarrow> c_start c1 = c_start c2 \<Longrightarrow> entries c1 = entries c2
   \<Longrightarrow> offers_window self task c1 team st en tr = offers_window self task c2 team st en tr"
  by (simp add: offers_window_def)

lemma cand_fields [simp]:
  "cand_team (a, b, c, d) = c" "cand_end (a, b, c, d) = b"
  by (simp_all add: cand_team_def cand_end_def)

lemma team_candidates_windows:
  assumes "\<forall>team \<in> set teams. map_of (states self) team \<noteq> None"
      and "\<forall>a b. \<exists>d. movement self a b = Inr d"
  shows "\<exists>cs. team_candidates self task ctx teams = Inr cs \<and> map cand_team cs = teams
           \<and> (\<forall>c \<in> set cs. offers_window self task ctx (cand_team c) (fst c) (cand_end c)
                                (snd (snd (snd c))))"
  using assms(1)
proof (induction teams)
  case Nil
  show ?case by simp
next
  case (Cons team teams)
  then obtain state where st: "map_of (states self) team = Some state" by auto
  obtain d where d: "movement self (current_cluster state) (cluster (well ctx)) = Inr d"
    using assms(2) by blast
  let ?tr = "timedelta_of_float_days d"
  let ?base = "max (available_from state + ?tr) (get_next_available_date ctx)"
  obtain t where t: "find_start_loop self task team ?base = Some t"
    using find_start_loop_Some by blast
  have "earliest_start self task team ?base t" using t by (rule find_start_loop_earliest)
  then have w: "offers_window self task ctx team t (t + duration task) ?tr"
    unfolding offers_window_def get_next_available_date_Max using st d by blast
  from Cons obtain cs where cs: "team_candidates self task ctx teams = Inr cs"
      "map cand_team cs = teams"
      "\<forall>c \<in> set cs. offers_window self task ctx (cand_team c) (fst c) (cand_end c)
                        (snd (snd (snd c)))"
    by auto
  have "team_candidates self task ctx (team # teams)
        = Inr ((t, t + duration task, team, ?tr) # cs)"
    using st d t cs(1) by (simp add: get_travel_time_def find_available_start_time_def)
  then show ?case
    using cs(2,3) w by simp
qed

lemma min_by_end_least:
  "min_by_end c cs \<in> set (c # cs) \<and> (\<forall>x \<in> set (c # cs). cand_end (min_by_end c cs) \<le> cand_end x)"
  unfolding min_by_end_def
proof (induction cs arbitrary: c)
  case Nil
  show ?case by simp
next
  case (Cons a cs)
  show ?case
    using Cons [of "if cand_end a < cand_end c then a else c"] by (auto split: if_splits)
qed

lemma fold_min_first:
  assumes "\<forall>x \<in> set pre. cand_end b < cand_end x" and "\<forall>x \<in> set post. cand_end b \<le> cand_end x"
  shows "\<exists>pre' post'. pre @ b # post @ cs
             = pre' @ fold (\<lambda>x best. if cand_end x < cand_end best then x else best) cs b # post'
           \<and> (\<forall>x \<in> set pre'.
                 cand_end (fold (\<lambda>x best. if cand_end x < cand_end best then x else best) cs b)
                 < cand_end x)"
  using assms
proof (induction cs arbitrary: pre b post)
  case Nil
  then show ?case by auto
next
  case (Cons a cs)
  show ?case
  proof (cases "cand_end a < cand_end b")
    case True
    have "\<forall>x \<in> set (pre @ b # post). cand_end a < cand_end x"
      using Cons.prems True by fastforce
    from Cons.IH [of "pre @ b # post" a "[]", OF this] True show ?thesis by simp
  next
    case False
    have "\<forall>x \<in> set (post @ [a]). cand_end b \<le> cand_end x"
      using Cons.prems(2) False by auto
    from Cons.IH [of pre b "post @ [a]", OF Cons.prems(1) this] False show ?thesis by simp
  qed
qed

lemma min_by_end_first:
  "\<exists>pre post. c # cs = pre @ min_by_end c cs # post
     \<and> (\<forall>x \<in> set pre. cand_end (min_by_end c cs) < cand_end x)"
  using fold_min_first [of "[]" c "[]" cs] by (simp add: min_by_end_def)

lemma count_teams_fields [simp]:
  "well (count_teams_on_cluster self ctx task team) = well ctx"
  "c_start (count_teams_on_cluster self ctx task team) = c_start ctx"
  "entries (count_teams_on_cluster self ctx task team) = entries ctx"
  by (simp_all add: count_teams_on_cluster_def Let_def)

lemma pool_supported_iff: "task \<in> pool_supported_tasks pool \<longleftrightarrow> pool task \<noteq> None"
  by (cases task) (auto simp: pool_supported_tasks_def)

lemma assign_task_supported:
  assumes "team_pool self task = Some teams" and "teams \<noteq> []"
      and "\<forall>team \<in> set teams. map_of (states self) team \<noteq> None"
      and "\<forall>a b. \<exists>d. movement self a b = Inr d"
  shows "\<exists>ctx' e. assign_task self ctx task = Inr ctx'
           \<and> entries ctx' = entries ctx @ [e] \<and> well ctx' = well ctx
           \<and> c_start ctx' = c_start ctx \<and> is_earliest self ctx task e"
proof -
  have gt: "get_teams_for_task (team_pool self) task = teams"
    using assms(1) by (simp add: get_teams_for_task_def)
  have sup: "task \<in> pool_supported_tasks (team_pool self)"
    using assms(1) by (simp add: pool_supported_iff)
  obtain cs where cs: "team_candidates self task ctx teams = Inr cs" "map cand_team cs = teams"
      "\<forall>c \<in> set cs. offers_window self task ctx (cand_team c) (fst c) (cand_end c)
                        (snd (snd (snd c)))"
    using team_candidates_windows [OF assms(3,4)] by blast
  with assms(2) obtain c cs' where c: "cs = c # cs'" by (cases cs) auto
  obtain bs be bt btr where m: "min_by_end c cs' = (bs, be, bt, btr)"
    by (cases "min_by_end c cs'") auto
  let ?e = "\<lparr>e_task = task, e_team = bt, e_start = bs, e_end = be, travel_time = btr\<rparr>"
  have mem: "(bs, be, bt, btr) \<in> set cs" and least: "\<forall>x \<in> set cs. be \<le> cand_end x"
    using min_by_end_least [of c cs'] m c by simp_all
  obtain pre post where pp: "cs = pre @ (bs, be, bt, btr) # post"
      "\<forall>x \<in> set pre. be < cand_end x"
    using min_by_end_first [of c cs'] m c by auto
  have split: "teams = map cand_team pre @ bt # map cand_team post"
    using cs(2) pp(1) by auto
  have own: "offers_window self task ctx bt bs be btr"
    using cs(3) mem by force
  have each: "\<exists>x \<in> set cs. cand_team x = team" if "team \<in> set teams" for team
  proof -
    from that cs(2) have "team \<in> set (map cand_team cs)" by simp
    then show ?thesis by auto
  qed
  have all: "\<exists>st en tr. offers_window self task ctx team st en tr" if "team \<in> set teams" for team
    using each [OF that] cs(3) by blast
  have mini: "be \<le> en" if "team \<in> set teams" "offers_window self task ctx team st en tr"
    for team st en tr
  proof -
    from each [OF that(1)] obtain x where x: "x \<in> set cs" "cand_team x = team" by blast
    then have "offers_window self task ctx team (fst x) (cand_end x) (snd (snd (snd x)))"
      using cs(3) by blast
    from offers_window_unique [OF this that(2)] have "cand_end x = en" by simp
    with least x(1) show ?thesis by auto
  qed
  have strict: "be < en"
    if "team \<in> set (map cand_team pre)" "offers_window self task ctx team st en tr"
    for team st en tr
  proof -
    from that(1) obtain x where x: "x \<in> set pre" "cand_team x = team" by auto
    then have "x \<in> set cs" using pp(1) by simp
    with x(2) have "offers_window self task ctx team (fst x) (cand_end x) (snd (snd (snd x)))"
      using cs(3) by blast
    from offers_window_unique [OF this that(2)] have "cand_end x = en" by simp
    with pp(2) x(1) show ?thesis by auto
  qed
  have "is_earliest self ctx task ?e"
    unfolding is_earliest_def
  proof (rule conjI, simp, rule exI [of _ teams], rule exI [of _ "map cand_team pre"],
      rule exI [of _ "map cand_team post"], intro conjI)
    show "team_pool self task = Some teams" by (rule assms(1))
    show "teams = map cand_team pre @ e_team ?e # map cand_team post" using split by simp
    show "offers_window self task ctx (e_team ?e) (e_start ?e) (e_end ?e) (travel_time ?e)"
      using own by simp
    show "\<forall>team \<in> set teams. \<exists>st en tr. offers_window self task ctx team st en tr"
      using all by blast
    show "\<forall>team \<in> set teams. \<forall>st en tr.
            offers_window self task ctx team st en tr \<longrightarrow> e_end ?e \<le> en"
      using mini by simp
    show "\<forall>team \<in> set (map cand_team pre). \<forall>st en tr.
            offers_window self task ctx team st en tr \<longrightarrow> e_end ?e < en"
      using strict by simp
  qed
  then show ?thesis
    using sup gt cs(1) c m by (auto simp: assign_task_def Let_def)
qed

lemma is_earliest_cong:
  "well c1 = well c2 \<Longrightarrow> c_start c1 = c_start c2 \<Longrightarrow> entries c1 = entries c2
   \<Longrightarrow> is_earliest self c1 task e = is_earliest self c2 task e"
  using offers_window_cong [of c1 c2 self task] by (simp add: is_earliest_def)

lemma earliest_finish_cong:
  "well c1 = well c2 \<Longrightarrow> c_start c1 = c_start c2 \<Longrightarrow> entries c1 = entries c2
   \<Longrightarrow> earliest_finish self c1 ts es = earliest_finish self c2 ts es"
proof (induction self c1 ts es arbitrary: c2 rule: earliest_finish.induct)
  case (3 self ctx task ts e es)
  have "earliest_finish self (ctx\<lparr>entries := entries ctx @ [e]\<rparr>) ts es
        = earliest_finish self (c2\<lparr>entries := entries c2 @ [e]\<rparr>) ts es"
    using 3 by (intro "3.IH") simp_all
  moreover have "is_earliest self ctx task e = is_earliest self c2 task e"
    using 3 by (intro is_earliest_cong) simp_all
  ultimately show ?case by simp
qed simp_all

lemma get_assignments_loop_supported:
  assumes "\<forall>task teams. team_pool self task = Some teams
             \<longrightarrow> teams \<noteq> [] \<and> (\<forall>team \<in> set teams. map_of (states self) team \<noteq> None)"
      and "\<forall>a b. \<exists>d. movement self a b = Inr d"
  shows "\<forall>task \<in> set ts. team_pool self task \<noteq> None
    \<Longrightarrow> \<exists>ctx' es. get_assignments_loop self ctx ts = Inr ctx'
          \<and> entries ctx' = entries ctx @ es \<and> well ctx' = well ctx
          \<and> earliest_finish self ctx ts es"
proof (induction ts arbitrary: ctx)
  case Nil
  show ?case by simp
next
  case (Cons task ts)
  from Cons.prems obtain teams where teams: "team_pool self task = Some teams" by auto
  with assms(1) have ok: "teams \<noteq> []" "\<forall>team \<in> set teams. map_of (states self) team \<noteq> None"
    by blast+
  from Cons.prems have rest: "\<forall>task \<in> set ts. team_pool self task \<noteq> None" by simp
  obtain c1 e where c1: "assign_task self ctx task = Inr c1"
      "entries c1 = entries ctx @ [e]" "well c1 = well ctx"
      "c_start c1 = c_start ctx" "is_earliest self ctx task e"
    using assign_task_supported [OF teams ok assms(2), of ctx] by blast
  obtain c2 es where c2: "get_assignments_loop self c1 ts = Inr c2"
      "entries c2 = entries c1 @ es" "well c2 = well c1" "earliest_finish self c1 ts es"
    using Cons.IH [OF rest, of c1] by blast
  have "earliest_finish self (ctx\<lparr>entries := entries ctx @ [e]\<rparr>) ts es"
    using c2(4) earliest_finish_cong [of c1 "ctx\<lparr>entries := entries ctx @ [e]\<rparr>"] c1
    by simp
  then have "earliest_finish self ctx (task # ts) (e # es)"
    using c1(5) by simp
  moreover have "entries c2 = entries ctx @ (e # es)" using c1 c2 by simp
  ultimately show ?case using c1 c2 by (intro exI [of _ c2] exI [of _ "e # es"]) simp
qed

lemma assign_task_no_error:
  assumes "\<forall>task teams. team_pool self task = Some teams
             \<longrightarrow> teams \<noteq> [] \<and> (\<forall>team \<in> set teams. map_of (states self) team \<noteq> None)"
      and "\<forall>a b. \<exists>d. movement self a b = Inr d"
      and "team_pool self task \<noteq> None"
  shows "\<exists>ctx'. assign_task self ctx task = Inr ctx'"
proof -
  from assms(3) obtain teams where teams: "team_pool self task = Some teams" by auto
  with assms(1) have ok: "teams \<noteq> []" "\<forall>team \<in> set teams. map_of (states self) team \<noteq> None"
    by blast+
  from assign_task_supported [OF teams ok assms(2), of ctx] show ?thesis by blast
qed

lemma get_assignments_loop_unsupported:
  assumes "\<forall>task teams. team_pool self task = Some teams
             \<longrightarrow> teams \<noteq> [] \<and> (\<forall>team \<in> set teams. map_of (states self) team \<noteq> None)"
      and "\<forall>a b. \<exists>d. movement self a b = Inr d"
  shows "\<exists>task \<in> set ts. team_pool self task = None
    \<Longrightarrow> get_assignments_loop self ctx ts = Inl ValueError"
proof (induction ts arbitrary: ctx)
  case Nil
  then show ?case by simp
next
  case (Cons task ts)
  show ?case
  proof (cases "team_pool self task = None")
    case True
    then show ?thesis by (simp add: assign_task_def pool_supported_iff)
  next
    case False
    then obtain c1 where "assign_task self ctx task = Inr c1"
      using assign_task_no_error [OF assms] by blast
    moreover have "\<exists>task \<in> set ts. team_pool self task = None"
      using Cons.prems False by auto
    ultimately show ?thesis using Cons.IH [of c1] by simp
  qed
qed

text \<open>
  C5. For a manager that holds a state for every team of its pool, whose pool lists at
  least one team for every task that it has as a key, and whose movement returns a number
  of days: when every task of the well is a key of the pool, \<open>TeamManager.get_assignments\<close>
  returns the context with one entry appended per task, in task order. Each appended entry
  carries its task and the window (start, end, travel time) that its team, one of the teams
  of the pool for that task, offers; every team of the pool for that task offers a window,
  the end of the entry is not later than the end of the window of any of them, and it is
  earlier than the end of the window of every team that the pool lists before the team of
  the entry. The
  window of a team starts at the first of these dates whose year passes the limit check
  for the team: the later of the date at which the team is free plus its travel time and
  the latest end of the entries that the context has already (its start when it has none),
  then January 1 of each following year; it lasts the duration of the task. When a task of
  the well is not a key of the pool, \<open>get_assignments\<close> raises ValueError.
\<close>

theorem get_assignments_earliest_finish:
  assumes "\<forall>task teams. team_pool self task = Some teams
             \<longrightarrow> teams \<noteq> [] \<and> (\<forall>team \<in> set teams. map_of (states self) team \<noteq> None)"
      and "\<forall>a b. \<exists>d. movement self a b = Inr d"
  shows "((\<forall>task \<in> set (tasks (well ctx)). team_pool self task \<noteq> None)
          \<longrightarrow> (\<exists>ctx' es. get_assignments self ctx = Inr ctx'
                 \<and> entries ctx' = entries ctx @ es
                 \<and> earliest_finish self ctx (tasks (well ctx)) es))
       \<and> ((\<exists>task \<in> set (tasks (well ctx)). team_pool self task = None)
          \<longrightarrow> get_assignments self ctx = Inl ValueError)"
proof -
  have a: "\<exists>ctx' es. get_assignments self ctx = Inr ctx'
          \<and> entries ctx' = entries ctx @ es
          \<and> earliest_finish self ctx (tasks (well ctx)) es"
    if "\<forall>task \<in> set (tasks (well ctx)). team_pool self task \<noteq> None"
    using get_assignments_loop_supported [OF assms that, of ctx]
    unfolding get_assignments_def by blast
  have b: "get_assignments self ctx = Inl ValueError"
    if "\<exists>task \<in> set (tasks (well ctx)). team_pool self task = None"
    using get_assignments_loop_unsupported [OF assms that]
    by (simp add: get_assignments_def)
  from a b show ?thesis by blast
qed

lemmas ex_manager_defs = ex_manager2_def ex_manager3_def ex_manager_def TeamManager_init_def
  assign_def assign_entry_def record_usage_def record_year_def check_limit_def dict_keys_def
  ex_ctx_def ex_entry_def ctx_of_def pool_teams_def ex_pool_def get_teams_for_task_def
  TeamState_init_def well_A_def team1_def team2_def

lemmas calendar_defs = year_def datetime_jan1_def days_before_year_def us_per_day_def
  ord2year_def Let_def timedelta_of_days_def datetime_min_def

lemmas get_assignments_defs = get_assignments_def assign_task_def pool_supported_tasks_def
  find_available_start_time_def get_travel_time_def SimpleTeamMovement_get_move_days_def
  timedelta_of_float_days_def round_half_even_def get_next_available_date_def
  find_start_loop.simps min_by_end_def cand_end_def count_teams_on_cluster_def
  count_teams_on_cluster_by_task_def

lemma ex_manager3_fields:
  "team_pool ex_manager3 = ex_pool"
  "movement ex_manager3 = SimpleTeamMovement_get_move_days"
  "states ex_manager3 =
     [(team1, \<lparr>available_from = datetime_jan1 2025 + timedelta_of_days 30,
               current_cluster = Some ''A''\<rparr>),
      (team2, TeamState_init)]"
  by (simp_all add: ex_manager_defs year_jan1)

lemma ex_manager0_fields:
  "team_pool ex_manager0 = ex_pool"
  "movement ex_manager0 = SimpleTeamMovement_get_move_days"
  "states ex_manager0 = [(team1, TeamState_init), (team2, TeamState_init)]"
  by (simp_all add: ex_manager0_def ex_manager_defs)

lemma ex_get_assignments_second:
  "\<exists>c. get_assignments ex_manager3 (ctx_of well_A None) = Inr c
       \<and> entries c = [\<lparr>e_task = DRILLING, e_team = team2,
                        e_start = datetime_jan1 2025,
                        e_end = datetime_jan1 2025 + timedelta_of_days 30,
                        travel_time = timedelta_of_days 14\<rparr>]"
  by (simp add: get_assignments_defs ex_manager_defs calendar_defs)

lemma ex_get_assignments_tie:
  "\<exists>c. get_assignments ex_manager0 (ctx_of well_A None) = Inr c
       \<and> entries c = [\<lparr>e_task = DRILLING, e_team = team1,
                        e_start = datetime_jan1 2025,
                        e_end = datetime_jan1 2025 + timedelta_of_days 30,
                        travel_time = timedelta_of_days 14\<rparr>]"
  by (simp add: get_assignments_defs ex_manager0_def ex_manager_defs calendar_defs)

theorem get_assignments_earliest_finish_witness:
  "(\<exists>c. get_assignments ex_manager3 (ctx_of well_A None) = Inr c
       \<and> entries c = [\<lparr>e_task = DRILLING, e_team = team2,
                        e_start = datetime_jan1 2025,
                        e_end = datetime_jan1 2025 + timedelta_of_days 30,
                        travel_time = timedelta_of_days 14\<rparr>]
       \<and> earliest_finish ex_manager3 (ctx_of well_A None) [DRILLING] (entries c))
   \<and> (\<exists>c. get_assignments ex_manager0 (ctx_of well_A None) = Inr c
       \<and> entries c = [\<lparr>e_task = DRILLING, e_team = team1,
                        e_start = datetime_jan1 2025,
                        e_end = datetime_jan1 2025 + timedelta_of_days 30,
                        travel_time = timedelta_of_days 14\<rparr>]
       \<and> earliest_finish ex_manager0 (ctx_of well_A None) [DRILLING] (entries c))
   \<and> get_assignments ex_manager3 (ctx_of (well_A\<lparr>tasks := [DRILLING, GTM]\<rparr>) None)
       = Inl ValueError"
proof -
  have tasks: "tasks (well (ctx_of well_A None)) = [DRILLING]"
    by (simp add: ctx_of_def well_A_def)
  have none: "entries (ctx_of well_A None) = []"
    by (simp add: ctx_of_def)
  have h1: "\<forall>task teams. team_pool ex_manager3 task = Some teams
             \<longrightarrow> teams \<noteq> [] \<and> (\<forall>team \<in> set teams. map_of (states ex_manager3) team \<noteq> None)"
    by (auto simp: ex_manager3_fields ex_pool_def split: if_splits)
  have h2: "\<forall>a b. \<exists>d. movement ex_manager3 a b = Inr d"
    by (simp add: ex_manager3_fields SimpleTeamMovement_get_move_days_def)
  have k1: "\<forall>task teams. team_pool ex_manager0 task = Some teams
             \<longrightarrow> teams \<noteq> [] \<and> (\<forall>team \<in> set teams. map_of (states ex_manager0) team \<noteq> None)"
    by (auto simp: ex_manager0_fields ex_pool_def split: if_splits)
  have k2: "\<forall>a b. \<exists>d. movement ex_manager0 a b = Inr d"
    by (simp add: ex_manager0_fields SimpleTeamMovement_get_move_days_def)
  have s1: "\<forall>task \<in> set (tasks (well (ctx_of well_A None))). team_pool ex_manager3 task \<noteq> None"
    by (simp add: tasks ex_manager3_fields ex_pool_def)
  have s0: "\<forall>task \<in> set (tasks (well (ctx_of well_A None))). team_pool ex_manager0 task \<noteq> None"
    by (simp add: tasks ex_manager0_fields ex_pool_def)
  have s2: "\<exists>task \<in> set (tasks (well (ctx_of (well_A\<lparr>tasks := [DRILLING, GTM]\<rparr>) None))).
              team_pool ex_manager3 task = None"
    by (simp add: ex_manager3_fields ex_pool_def ctx_of_def)
  from get_assignments_earliest_finish [OF h1 h2, of "ctx_of well_A None"] s1
  obtain c es where c: "get_assignments ex_manager3 (ctx_of well_A None) = Inr c"
      "entries c = entries (ctx_of well_A None) @ es"
      "earliest_finish ex_manager3 (ctx_of well_A None) (tasks (well (ctx_of well_A None))) es"
    by blast
  have a: "\<exists>c. get_assignments ex_manager3 (ctx_of well_A None) = Inr c
       \<and> entries c = [\<lparr>e_task = DRILLING, e_team = team2,
                        e_start = datetime_jan1 2025,
                        e_end = datetime_jan1 2025 + timedelta_of_days 30,
                        travel_time = timedelta_of_days 14\<rparr>]
       \<and> earliest_finish ex_manager3 (ctx_of well_A None) [DRILLING] (entries c)"
    using c ex_get_assignments_second by (auto simp: tasks none)
  from get_assignments_earliest_finish [OF k1 k2, of "ctx_of well_A None"] s0
  obtain d ds where d: "get_assignments ex_manager0 (ctx_of well_A None) = Inr d"
      "entries d = entries (ctx_of well_A None) @ ds"
      "earliest_finish ex_manager0 (ctx_of well_A None) (tasks (well (ctx_of well_A None))) ds"
    by blast
  have b: "\<exists>c. get_assignments ex_manager0 (ctx_of well_A None) = Inr c
       \<and> entries c = [\<lparr>e_task = DRILLING, e_team = team1,
                        e_start = datetime_jan1 2025,
                        e_end = datetime_jan1 2025 + timedelta_of_days 30,
                        travel_time = timedelta_of_days 14\<rparr>]
       \<and> earliest_finish ex_manager0 (ctx_of well_A None) [DRILLING] (entries c)"
    using d ex_get_assignments_tie by (auto simp: tasks none)
  have e: "get_assignments ex_manager3 (ctx_of (well_A\<lparr>tasks := [DRILLING, GTM]\<rparr>) None)
       = Inl ValueError"
    using get_assignments_earliest_finish
            [OF h1 h2, of "ctx_of (well_A\<lparr>tasks := [DRILLING, GTM]\<rparr>) None"] s2
    by blast
  from a b e show ?thesis by blast
qed

section \<open>Net present value\<close>

lemma sum_list_enumerate:
  "sum_list (map f (enumerate n xs)) = (\<Sum>i<length xs. f (n + i, xs ! i))"
proof (induction xs arbitrary: n)
  case Nil
  show ?case by simp
next
  case (Cons x xs)
  have "(\<Sum>i<length (x # xs). f (n + i, (x # xs) ! i))
        = f (n, x) + (\<Sum>i<length xs. f (n + Suc i, xs ! i))"
    by (simp only: length_Cons sum.lessThan_Suc_shift) simp
  then show ?case using Cons [of "Suc n"] by simp
qed

lemma BaseOpex_compute_length:
  "length liq = length oil
   \<Longrightarrow> length (BaseOpex_compute self oil (map (\<lambda>(l, ol). l - ol) (zip liq oil))) = length oil"
  by (simp add: BaseOpex_compute_def)

lemma map_result_all:
  "(\<forall>x \<in> set xs. f x = Inr (g x)) \<Longrightarrow> map_result f xs = Inr (map g xs)"
  by (induction xs) simp_all

lemma discount_positive_base:
  "0 < 1 + discount_rate self
   \<Longrightarrow> discount self cf y = Inr (cf / (1 + discount_rate self) powr y)"
  by (simp add: discount_def py_float_pow_def py_float_div_def)

lemma discount_zero_base:
  "1 + discount_rate self = 0 \<Longrightarrow> y \<noteq> 0 \<Longrightarrow> discount self cf y = Inl ZeroDivisionError"
  by (simp add: discount_def py_float_pow_def py_float_div_def)

lemma entry_by_task_find: "entry_by_task task es = find (\<lambda>e. e_task e = task) es"
  by (induction es) auto

text \<open>
  C6. With floats idealised as reals and a discount rate above \<open>-1\<close> (a positive base
  \<open>1 + discount_rate\<close> of the power): for a context whose capital cost is defined and
  whose provider of operating costs returns one value per month of the oil profile (as
  \<open>BaseOpex\<close> does for aligned oil and liquid profiles), \<open>NPV.compute\<close> returns the context
  with \<open>cost\<close> set to the sum over the months \<open>i\<close> of (oil \<open>*\<close> price \<open>-\<close> opex) discounted
  with exponent \<open>shift_years + i / 12\<close>, minus the capital cost discounted with exponent
  \<open>shift_years\<close>, minus the travel cost. \<open>shift_years\<close> is the whole days from the project
  start to the latest end of the entries (to the start of a context without entries),
  divided by 365. The travel cost is the whole days of the travel time of the first entry
  whose task is DRILLING times the rate per day, and 0 when no entry has the task DRILLING.
  The metadata holds the keys \<open>travel_cost\<close>, \<open>cash_flow\<close>, \<open>capex\<close> and
  \<open>drill_team_penalty\<close>, and its other keys and the other fields of the context are as
  before.
\<close>

theorem NPV_compute_cost:
  assumes "0 < 1 + discount_rate self"
      and "capex_cost self (well ctx) = Inr capex"
      and "opex = opex_cost self (oil_prod_profile ctx)
                    (map (\<lambda>(liq, oil). liq - oil)
                       (zip (liq_prod_profile ctx) (oil_prod_profile ctx)))"
      and "length opex = length (oil_prod_profile ctx)"
      and "launch = (if entries ctx = [] then c_start ctx
                     else Max (set (map e_end (entries ctx))))"
      and "shift_years = real_of_int ((launch - npv_start self) div 86400000000) / 365"
      and "travel = (case find (\<lambda>e. e_task e = DRILLING) (entries ctx) of
                       Some e \<Rightarrow> real_of_int (travel_time e div 86400000000)
                                 * travel_cost_per_day self
                     | None \<Rightarrow> 0)"
      and "cash = (\<Sum>i<length (oil_prod_profile ctx).
                     (oil_prod_profile ctx ! i * oil_price self - opex ! i)
                     / (1 + discount_rate self) powr (shift_years + real i / 12))"
  shows "\<exists>ctx'. NPV_compute self ctx = Inr ctx'
           \<and> cost ctx' = Some (cash - capex / (1 + discount_rate self) powr shift_years - travel)
           \<and> metadata ctx' ''travel_cost'' = Some travel
           \<and> metadata ctx' ''cash_flow'' = Some cash
           \<and> metadata ctx' ''capex'' = Some (capex / (1 + discount_rate self) powr shift_years)
           \<and> metadata ctx' ''drill_team_penalty''
               = Some ((case metadata ctx ''team_count_drilling'' of None \<Rightarrow> 0 | Some n \<Rightarrow> n)
                       * travel)
           \<and> (\<forall>k. k \<notin> {''travel_cost'', ''cash_flow'', ''capex'', ''drill_team_penalty''}
                  \<longrightarrow> metadata ctx' k = metadata ctx k)
           \<and> ctx' = ctx\<lparr>cost := cost ctx', metadata := metadata ctx'\<rparr>"
proof -
  let ?cf = "map (\<lambda>(oil, opex). oil * oil_price self - opex) (zip (oil_prod_profile ctx) opex)"
  let ?g = "\<lambda>(month, cf). cf / (1 + discount_rate self) powr (shift_years + real month / 12)"
  have len: "length ?cf = length (oil_prod_profile ctx)" using assms(4) by simp
  have sh: "real_of_int (td_days (get_next_available_date ctx - npv_start self)) / 365
            = shift_years"
    by (simp add: assms(5,6) get_next_available_date_Max td_days_def us_per_day_def)
  have tr: "(case get_entry_by_task ctx DRILLING of
               Some e \<Rightarrow> real_of_int (td_days (travel_time e)) * travel_cost_per_day self
             | None \<Rightarrow> 0) = travel"
    by (simp add: assms(7) get_entry_by_task_def entry_by_task_find td_days_def us_per_day_def
          cong: option.case_cong)
  have mr: "map_result (\<lambda>(month, cf). discount self cf (shift_years + real month / 12))
              (enumerate 0 ?cf) = Inr (map ?g (enumerate 0 ?cf))"
    by (rule map_result_all) (auto simp: discount_positive_base [OF assms(1)])
  have "py_sum (map ?g (enumerate 0 ?cf))
        = (\<Sum>i<length ?cf. (?cf ! i) / (1 + discount_rate self) powr (shift_years + real i / 12))"
    by (simp add: py_sum_sum_list sum_list_enumerate)
  also have "\<dots> = cash"
    unfolding assms(8) len
    by (rule sum.cong) (simp_all add: assms(4))
  finally have cash: "py_sum (map ?g (enumerate 0 ?cf)) = cash" .
  have dc: "discount self capex shift_years
            = Inr (capex / (1 + discount_rate self) powr shift_years)"
    by (rule discount_positive_base [OF assms(1)])
  show ?thesis
    using assms(2) cash
    unfolding NPV_compute_def Let_def assms(3) [symmetric] sh tr mr
    by (simp add: dc)
qed

theorem NPV_compute_cost_witness:
  "(\<exists>ctx'. NPV_compute ex_npv ex_npv_ctx = Inr ctx'
     \<and> cost ctx' = Some (- 1340)
     \<and> metadata ctx' ''travel_cost'' = Some 140
     \<and> metadata ctx' ''cash_flow'' = Some 800
     \<and> metadata ctx' ''capex'' = Some 2000
     \<and> metadata ctx' ''drill_team_penalty'' = Some 280)
   \<and> (\<exists>ctx'. NPV_compute ex_npv ex_npv_ctx_gtm = Inr ctx'
     \<and> cost ctx' = Some (- 1200)
     \<and> metadata ctx' ''travel_cost'' = Some 0)"
proof -
  have rate: "0 < 1 + discount_rate ex_npv" by (simp add: ex_npv_def)
  have cap: "capex_cost ex_npv (well c) = Inr 2250"
    if "well c = well_A" for c :: WellPlanContext
    using that by (simp add: ex_npv_def well_A_def BaseCapex_compute_def)
  have w: "well ex_npv_ctx = well_A" "well ex_npv_ctx_gtm = well_A"
    by (simp_all add: ex_npv_ctx_gtm_def ex_npv_ctx_def ctx_of_def)
  have op: "[100] = opex_cost ex_npv (oil_prod_profile c)
              (map (\<lambda>(liq, oil). liq - oil) (zip (liq_prod_profile c) (oil_prod_profile c)))"
    if "oil_prod_profile c = [100]" "liq_prod_profile c = [150]" for c :: WellPlanContext
    using that by (simp add: ex_npv_def BaseOpex_compute_def BaseOpex_init_def)
  have pf: "oil_prod_profile ex_npv_ctx = [100]" "liq_prod_profile ex_npv_ctx = [150]"
      "oil_prod_profile ex_npv_ctx_gtm = [100]" "liq_prod_profile ex_npv_ctx_gtm = [150]"
    by (simp_all add: ex_npv_ctx_gtm_def ex_npv_ctx_def)
  have la: "datetime_jan1 2025 + timedelta_of_days 30
            = (if entries ex_npv_ctx = [] then c_start ex_npv_ctx
               else Max (set (map e_end (entries ex_npv_ctx))))"
      "datetime_jan1 2025 + timedelta_of_days 30
            = (if entries ex_npv_ctx_gtm = [] then c_start ex_npv_ctx_gtm
               else Max (set (map e_end (entries ex_npv_ctx_gtm))))"
    by (simp_all add: ex_npv_ctx_gtm_def ex_npv_ctx_def ex_gtm_entry_def ex_entry_def)
  have sh: "1 = real_of_int ((datetime_jan1 2025 + timedelta_of_days 30 - npv_start ex_npv)
                   div 86400000000) / 365"
    by (simp add: ex_npv_def timedelta_of_days_def us_per_day_def)
  have tr: "140 = (case find (\<lambda>e. e_task e = DRILLING) (entries ex_npv_ctx) of
               Some e \<Rightarrow> real_of_int (travel_time e div 86400000000)
                          * travel_cost_per_day ex_npv
             | None \<Rightarrow> 0)"
      "0 = (case find (\<lambda>e. e_task e = DRILLING) (entries ex_npv_ctx_gtm) of
               Some e \<Rightarrow> real_of_int (travel_time e div 86400000000)
                          * travel_cost_per_day ex_npv
             | None \<Rightarrow> 0)"
    by (simp_all add: ex_npv_def ex_npv_ctx_gtm_def ex_npv_ctx_def ex_gtm_entry_def
          ex_entry_def timedelta_of_days_def us_per_day_def)
  have r: "discount_rate ex_npv = 1 / 8" "oil_price ex_npv = 10"
      "metadata ex_npv_ctx ''team_count_drilling'' = Some 2"
    by (simp_all add: ex_npv_def ex_npv_ctx_def)
  have a: "\<exists>ctx'. NPV_compute ex_npv ex_npv_ctx = Inr ctx'
     \<and> cost ctx' = Some (- 1340)
     \<and> metadata ctx' ''travel_cost'' = Some 140
     \<and> metadata ctx' ''cash_flow'' = Some 800
     \<and> metadata ctx' ''capex'' = Some 2000
     \<and> metadata ctx' ''drill_team_penalty'' = Some 280"
    using NPV_compute_cost [OF rate cap [OF w(1)] op [OF pf(1,2)] _ la(1) sh tr(1) refl]
    by (auto simp: r pf)
  have b: "\<exists>ctx'. NPV_compute ex_npv ex_npv_ctx_gtm = Inr ctx'
     \<and> cost ctx' = Some (- 1200)
     \<and> metadata ctx' ''travel_cost'' = Some 0"
    using NPV_compute_cost [OF rate cap [OF w(2)] op [OF pf(3,4)] _ la(2) sh tr(2) refl]
    by (auto simp: r pf)
  from a b show ?thesis by (rule conjI)
qed

lemma NPV_compute_zero_base:
  assumes "1 + discount_rate self = 0"
      and "capex_cost self (well ctx) = Inr capex"
      and "td_days (get_next_available_date ctx - npv_start self) \<noteq> 0"
  shows "NPV_compute self ctx = Inl ZeroDivisionError"
proof -
  let ?sh = "real_of_int (td_days (get_next_available_date ctx - npv_start self)) / 365"
  have nz: "?sh \<noteq> 0" using assms(3) by simp
  have first: "map_result (\<lambda>(month, cf). discount self cf (?sh + real month / 12))
                 (enumerate 0 cfs) = Inl ZeroDivisionError \<or>
               map_result (\<lambda>(month, cf). discount self cf (?sh + real month / 12))
                 (enumerate 0 cfs) = Inr []" for cfs :: "real list"
    using nz by (cases cfs) (simp_all add: discount_zero_base [OF assms(1)])
  have dc: "discount self capex ?sh = Inl ZeroDivisionError"
    using nz by (rule discount_zero_base [OF assms(1)])
  show ?thesis
    using assms(2) dc
      first [of "map (\<lambda>(oil, opex). oil * oil_price self - opex)
                  (zip (oil_prod_profile ctx)
                     (opex_cost self (oil_prod_profile ctx)
                        (map (\<lambda>(liq, oil). liq - oil)
                           (zip (liq_prod_profile ctx) (oil_prod_profile ctx)))))"]
    by (auto simp: NPV_compute_def Let_def)
qed

section \<open>Neighbour plans of the annealing optimiser\<close>

lemma shift_entries_frozen: "es \<noteq> [] \<Longrightarrow> shift_entries d es = Inl FrozenInstanceError"
  by (cases es) (simp_all add: ScheduleEntry_setattr_def)

text \<open>
  C4 does not hold on the code: for the plan of one well with one drilling entry, the
  mutation \<open>shift_well\<close> (here with a shift of 7 days) raises FrozenInstanceError at
  \<open>entry.start += ...\<close>, because \<open>ScheduleEntry\<close> is a frozen dataclass; the mutation
  \<open>reassign_team\<close> raises the same error at \<open>entry.team = new_team\<close>. Only \<open>swap_wells\<close>
  returns a plan.
\<close>

theorem get_neighbor_frozen_entry:
  "get_neighbor (ex_draws shift_well) ex_plan ex_manager = Inl FrozenInstanceError
   \<and> get_neighbor (ex_draws reassign_team) ex_plan ex_manager = Inl FrozenInstanceError
   \<and> (\<exists>m. get_neighbor (ex_draws swap_wells) ex_plan ex_manager = Inr (ex_plan, m))"
  by (simp add: get_neighbor_def mutate_shift_well_def mutate_reassign_team_def
        py_randint_def py_choice_index_def ScheduleEntry_setattr_def ex_draws_def ex_plan_def
        ex_ctx_def ex_entry_def ex_manager_def TeamManager_init_def ex_pool_def
        get_teams_for_task_def)

section \<open>Candidate selection\<close>

lemma min_loop_member: "min_loop key best xs = Inr c \<Longrightarrow> c \<in> set (best # xs)"
  by (induction xs arbitrary: best) (auto split: sum.splits if_splits)

lemma min_loop_None:
  "key best = None \<or> (\<exists>x \<in> set xs. key x = None) \<Longrightarrow> xs \<noteq> []
   \<Longrightarrow> min_loop key best xs = Inl TypeError"
proof (induction xs arbitrary: best)
  case Nil
  then show ?case by simp
next
  case (Cons x xs)
  show ?case
  proof (cases "key x")
    case None
    then show ?thesis by simp
  next
    case (Some a)
    note kx = this
    show ?thesis
    proof (cases "key best")
      case None
      then show ?thesis using kx by simp
    next
      case (Some b)
      then have ex: "\<exists>y \<in> set xs. key y = None" using Cons.prems(1) kx by auto
      then have ne: "xs \<noteq> []" by auto
      have "min_loop key (if a < b then x else best) xs = Inl TypeError"
        using Cons.IH [of "if a < b then x else best"] ex ne by simp
      then show ?thesis using kx Some by simp
    qed
  qed
qed

lemma min_loop_least:
  "key best = Some b \<Longrightarrow> \<forall>x \<in> set xs. key x \<noteq> None
   \<Longrightarrow> \<exists>c d. min_loop key best xs = Inr c \<and> key c = Some d
         \<and> (\<forall>x \<in> set (best # xs). \<exists>e. key x = Some e \<and> d \<le> e)"
proof (induction xs arbitrary: best b)
  case Nil
  then show ?case by simp
next
  case (Cons x xs)
  from Cons.prems obtain a where a: "key x = Some a" by auto
  let ?best = "if a < b then x else best"
  have kb: "key ?best = Some (min a b)" using a Cons.prems(1) by (simp add: min_def)
  from Cons.IH [OF kb] Cons.prems(2)
  obtain c d where c: "min_loop key ?best xs = Inr c" "key c = Some d"
      "\<forall>y \<in> set (?best # xs). \<exists>e. key y = Some e \<and> d \<le> e"
    by auto
  from c(3) kb have "d \<le> min a b" by auto
  then have "\<forall>y \<in> set (best # x # xs). \<exists>e. key y = Some e \<and> d \<le> e"
    using c(3) a Cons.prems(1) by auto
  then show ?case using c(1,2) a Cons.prems(1) by simp
qed

lemma simulated_annealing_selection_member:
  assumes "candidates \<noteq> []"
  shows "simulated_annealing_selection draw candidates \<in> set candidates"
proof -
  let ?valid = "filter (\<lambda>c. cost c \<noteq> None) candidates"
  show ?thesis
  proof (cases "?valid = []")
    case True
    then show ?thesis using assms by (simp add: simulated_annealing_selection_def)
  next
    case False
    then have "draw mod length ?valid < length ?valid" by simp
    then have "?valid ! (draw mod length ?valid) \<in> set ?valid" by (rule nth_mem)
    then have "?valid ! (draw mod length ?valid) \<in> set candidates" by simp
    then show ?thesis using False by (simp add: simulated_annealing_selection_def Let_def)
  qed
qed

lemma select_best_candidate_member:
  "select_best_candidate draw candidates ko = Inr c \<Longrightarrow> c \<in> set candidates"
  by (auto simp: select_best_candidate_def py_min_key_def simulated_annealing_selection_member
           split: if_splits list.splits dest: min_loop_member)

section \<open>Wells of the candidates\<close>

lemma assign_task_well: "assign_task self ctx task = Inr ctx' \<Longrightarrow> well ctx' = well ctx"
  by (auto simp: assign_task_def Let_def count_teams_on_cluster_def
           split: if_splits sum.splits list.splits prod.splits)

lemma get_assignments_loop_well:
  "get_assignments_loop self ctx ts = Inr ctx' \<Longrightarrow> well ctx' = well ctx"
  by (induction ts arbitrary: ctx) (auto split: sum.splits dest: assign_task_well)

lemma get_assignments_well: "get_assignments self ctx = Inr ctx' \<Longrightarrow> well ctx' = well ctx"
  by (auto simp: get_assignments_def dest: get_assignments_loop_well)

lemma NPV_compute_well: "NPV_compute self ctx = Inr ctx' \<Longrightarrow> well ctx' = well ctx"
  by (auto simp: NPV_compute_def Let_def split: sum.splits)

lemma build_context_finished:
  assumes "\<forall>m c c'. get_assignments_of mm m c = Inr c' \<longrightarrow> well c' = well c"
      and "\<forall>c. well (profiler self c) = well c"
      and "build_context self mm manager remaining w start = Inr (Some ctx)"
  shows "well ctx = w \<and> is_cluster_finished remaining (depend_from_cluster w)"
proof -
  let ?c0 = "\<lparr>well = w, c_start = max (infra self w) start, c_end = pb_end self,
              entries = [], cost = None, oil_prod_profile = [],
              liq_prod_profile = [], metadata = Map.empty\<rparr>"
  from assms(3) have fin: "is_cluster_finished remaining (depend_from_cluster w)"
    by (auto simp: build_context_def split: if_splits)
  with assms(3) obtain c' where c': "get_assignments_of mm manager ?c0 = Inr c'"
      "ctx = profiler self c'"
    by (auto simp: build_context_def Let_def split: if_splits sum.splits)
  from c'(1) assms(1) have "well c' = w" by fastforce
  then show ?thesis using fin c'(2) assms(2) by simp
qed

lemma build_contexts_loop_finished:
  assumes "\<forall>m c c'. get_assignments_of mm m c = Inr c' \<longrightarrow> well c' = well c"
      and "\<forall>c. well (profiler self c) = well c"
  shows "build_contexts_loop self mm manager remaining start ws = Inr cs
    \<Longrightarrow> \<forall>c \<in> set cs. well c \<in> set ws
          \<and> is_cluster_finished remaining (depend_from_cluster (well c))"
proof (induction ws arbitrary: cs)
  case Nil
  then show ?case by simp
next
  case (Cons w ws)
  from Cons.prems obtain r cs' where r: "build_context self mm manager remaining w start = Inr r"
      "build_contexts_loop self mm manager remaining start ws = Inr cs'"
      "cs = (case r of None \<Rightarrow> cs' | Some c \<Rightarrow> c # cs')"
    by (auto split: sum.splits)
  have tl: "\<forall>c \<in> set cs'. well c \<in> set ws
          \<and> is_cluster_finished remaining (depend_from_cluster (well c))"
    using Cons.IH [OF r(2)] .
  show ?case
  proof (cases r)
    case None
    then show ?thesis using r(3) tl by auto
  next
    case (Some c)
    then have "well c = w \<and> is_cluster_finished remaining (depend_from_cluster w)"
      using build_context_finished [OF assms] r(1) by blast
    then show ?thesis using r(3) Some tl by auto
  qed
qed

lemma dict_set_values: "snd ` set (dict_set k v d) \<subseteq> insert v (snd ` set d)"
  by (induction d) auto

lemma earliest_per_cluster_values:
  "snd ` set (earliest_per_cluster cs d) \<subseteq> set cs \<union> snd ` set d"
proof (induction cs arbitrary: d)
  case Nil
  show ?case by simp
next
  case (Cons c cs)
  let ?d = "case map_of d (cluster (well c)) of
              None \<Rightarrow> dict_set (cluster (well c)) c d
            | Some existing \<Rightarrow>
                if date_or_min existing > date_or_min c
                then dict_set (cluster (well c)) c d else d"
  have "snd ` set ?d \<subseteq> insert c (snd ` set d)"
    using dict_set_values [of "cluster (well c)" c d] by (auto split: option.splits)
  with Cons [of ?d] show ?case by auto
qed

lemma map_result_source:
  "map_result f xs = Inr ys \<Longrightarrow> \<forall>y \<in> set ys. \<exists>x \<in> set xs. f x = Inr y"
  by (induction xs arbitrary: ys) (auto split: sum.splits)

lemma filter_candidates_wells:
  assumes "\<forall>c c'. cost_function self c = Inr c' \<longrightarrow> well c' = well c"
      and "\<forall>s. risk = Some s \<longrightarrow> (\<forall>r c. well (apply_risk s r c) = well c)"
      and "filter_candidates self candidates p risk rs ordered = Inr cs'"
  shows "\<forall>c' \<in> set cs'. \<exists>c \<in> set candidates. well c' = well c"
proof
  fix c' assume c': "c' \<in> set cs'"
  let ?c1 = "if ordered \<and> candidates \<noteq> []
             then map snd (earliest_per_cluster candidates []) else candidates"
  let ?c2 = "case risk of None \<Rightarrow> ?c1 | Some strategy \<Rightarrow> map (apply_risk strategy rs) ?c1"
  from assms(3) obtain c3 where c3: "map_result (cost_function self) ?c2 = Inr c3"
      "cs' = filter (\<lambda>c. \<not> constraints_violated (constraints self) p c) c3"
    by (auto simp: filter_candidates_def Let_def split: sum.splits)
  from c' c3(2) have "c' \<in> set c3" by simp
  with map_result_source [OF c3(1)] obtain x2 where x2: "x2 \<in> set ?c2"
      "cost_function self x2 = Inr c'" by blast
  then have w2: "well c' = well x2" using assms(1) by blast
  have "\<exists>x1 \<in> set ?c1. well x2 = well x1"
    using x2(1) assms(2) by (cases risk) auto
  then obtain x1 where x1: "x1 \<in> set ?c1" "well x2 = well x1" by blast
  have "set ?c1 \<subseteq> set candidates"
    using earliest_per_cluster_values [of candidates "[]"] by auto
  then show "\<exists>c \<in> set candidates. well c' = well c" using x1 w2 by auto
qed

section \<open>Keep-order selection\<close>


text \<open>
  C10. With \<open>keep_order=True\<close>, \<open>_select_best_candidate\<close> raises TypeError whenever it is
  given two or more candidates of which at least one has a well without
  \<open>init_entry_date\<close>; it returns a candidate when every candidate's well has a date (and
  there is a candidate), and also when there is one candidate only, with or without a date.
\<close>

theorem keep_order_requires_dates:
  "(2 \<le> length candidates \<and> (\<exists>c \<in> set candidates. init_entry_date (well c) = None)
      \<longrightarrow> select_best_candidate draw candidates True = Inl TypeError)
   \<and> (candidates \<noteq> [] \<and> (\<forall>c \<in> set candidates. init_entry_date (well c) \<noteq> None)
      \<longrightarrow> (\<exists>c. select_best_candidate draw candidates True = Inr c))
   \<and> select_best_candidate draw [c0] True = Inr c0"
proof (intro conjI impI)
  assume a: "2 \<le> length candidates \<and> (\<exists>c \<in> set candidates. init_entry_date (well c) = None)"
  then obtain x rest where xs0: "candidates = x # rest" by (cases candidates) auto
  with a have "rest \<noteq> []" by auto
  note xs = xs0 this
  from a xs have "init_entry_date (well x) = None
               \<or> (\<exists>y \<in> set rest. init_entry_date (well y) = None)" by auto
  from min_loop_None [of "\<lambda>c. init_entry_date (well c)" x rest, OF this xs(2)]
  show "select_best_candidate draw candidates True = Inl TypeError"
    using xs by (simp add: select_best_candidate_def py_min_key_def)
next
  assume a: "candidates \<noteq> [] \<and> (\<forall>c \<in> set candidates. init_entry_date (well c) \<noteq> None)"
  then obtain x rest where xs: "candidates = x # rest" by (cases candidates) auto
  with a obtain b where b: "init_entry_date (well x) = Some b"
    and all: "\<forall>y \<in> set rest. init_entry_date (well y) \<noteq> None" by auto
  from min_loop_least [of "\<lambda>c. init_entry_date (well c)", OF b all]
  show "\<exists>c. select_best_candidate draw candidates True = Inr c"
    using xs by (auto simp: select_best_candidate_def py_min_key_def)
next
  show "select_best_candidate draw [c0] True = Inr c0"
    by (simp add: select_best_candidate_def py_min_key_def)
qed

theorem keep_order_requires_dates_witness:
  "select_best_candidate 0
     [ctx_of well_A None, ctx_of (well_A\<lparr>init_entry_date := None\<rparr>) None] True = Inl TypeError
   \<and> (\<exists>c. select_best_candidate 0 [ctx_of well_A None, ctx_of well_B None] True = Inr c)
   \<and> select_best_candidate 0 [ctx_of (well_A\<lparr>init_entry_date := None\<rparr>) None] True
       = Inr (ctx_of (well_A\<lparr>init_entry_date := None\<rparr>) None)"
  using keep_order_requires_dates
          [of "[ctx_of well_A None, ctx_of (well_A\<lparr>init_entry_date := None\<rparr>) None]" 0
              "ctx_of (well_A\<lparr>init_entry_date := None\<rparr>) None"]
        keep_order_requires_dates [of "[ctx_of well_A None, ctx_of well_B None]" 0]
  by (simp add: ctx_of_def well_A_def well_B_def)

section \<open>Keep-order determinism\<close>




lemmas builder_defs = compile_def compile_loop.simps compile_step_def build_contexts_def
  build_context_def is_cluster_finished_def filter_candidates_def select_best_candidate_def
  py_min_key_def py_remove_def add_context_def constraints_violated_def date_or_min_def
  next_period_start_def SimpleInfrastructure_get_ready_date_def TeamManager_methods_def
  ex_builder_def ex_args_def ex_manager0_def well_B_def

lemma ex_compile:
  "\<exists>p. compile ex_builder (ex_args r) 0 [well_B, well_A] ex_manager0 () = Inr p
       \<and> map (well_name \<circ> well) (well_plans p) = [''W1'', ''W2'']"
  by (simp add: builder_defs get_assignments_defs ex_manager_defs calendar_defs)


section \<open>Cluster precedence\<close>

lemma is_cluster_finished_free:
  "is_cluster_finished pool (depend_from_cluster w) = cluster_free pool w"
  by (auto simp: is_cluster_finished_def cluster_free_def list_ex_iff split: option.splits)

lemma cluster_free_subset: "cluster_free pool w \<Longrightarrow> set pool' \<subseteq> set pool \<Longrightarrow> cluster_free pool' w"
  by (auto simp: cluster_free_def)

lemma py_remove_subset: "py_remove x xs = Inr ys \<Longrightarrow> set ys \<subseteq> set xs"
  using set_remove1_subset [of x xs] by (auto simp: py_remove_def split: if_splits)

lemma compile_step_appends:
  assumes ga: "\<forall>m c c'. get_assignments_of (manager_methods args) m c = Inr c' \<longrightarrow> well c' = well c"
      and pr: "\<forall>c. well (profiler self c) = well c"
      and cf: "\<forall>c c'. cost_function self c = Inr c' \<longrightarrow> well c' = well c"
      and rk: "\<forall>s. risk_strategy args = Some s
                 \<longrightarrow> (\<forall>r c. well (apply_risk s r c) = well c)
                     \<and> (\<forall>d r c. well (snd (define_risk s d r c)) = well c)"
      and step: "compile_step self args st = Inr (Continue st')"
  shows "(remaining_wells st' = remaining_wells st \<and> ls_plan st' = ls_plan st)
         \<or> (\<exists>ctx. ls_plan st' = add_context (ls_plan st) ctx
               \<and> cluster_free (remaining_wells st) (well ctx)
               \<and> well ctx \<in> set (remaining_wells st)
               \<and> set (remaining_wells st') \<subseteq> set (remaining_wells st))"
proof -
  from step obtain cands where cands:
      "build_contexts self (manager_methods args) (ls_manager st) (remaining_wells st)
         (current_start st) = Inr cands" "cands \<noteq> []"
    by (auto simp: compile_step_def split: sum.splits if_splits)
  from step cands obtain cands' where cands':
      "filter_candidates self cands (ls_plan st) (risk_strategy args) (ls_risk st)
         (cluster_ordered args) = Inr cands'"
    by (auto simp: compile_step_def split: sum.splits if_splits)
  show ?thesis
  proof (cases "cands' = []")
    case True
    with step cands cands' show ?thesis by (auto simp: compile_step_def)
  next
    case False
    with step cands cands' obtain best remaining' where sel:
        "select_best_candidate (rnd args (2 * iteration st)) cands' (keep_order args) = Inr best"
        "py_remove (well best) (remaining_wells st) = Inr remaining'"
      by (auto simp: compile_step_def Let_def split: sum.splits)
    have built: "\<forall>c \<in> set cands. cluster_free (remaining_wells st) (well c)"
      using build_contexts_loop_finished [OF ga pr] cands(1)
      unfolding build_contexts_def is_cluster_finished_free by blast
    have "\<forall>s. risk_strategy args = Some s \<longrightarrow> (\<forall>r c. well (apply_risk s r c) = well c)"
      using rk by blast
    from filter_candidates_wells [OF cf this cands']
    have "\<forall>c' \<in> set cands'. \<exists>c \<in> set cands. well c' = well c" .
    moreover have "best \<in> set cands'" using sel(1) by (rule select_best_candidate_member)
    ultimately have free: "cluster_free (remaining_wells st) (well best)"
      using built by fastforce
    have sub: "set remaining' \<subseteq> set (remaining_wells st)"
      using sel(2) by (rule py_remove_subset)
    have mem: "well best \<in> set (remaining_wells st)"
      using sel(2) by (auto simp: py_remove_def split: if_splits)
    show ?thesis
    proof (cases "risk_strategy args")
      case None
      with step cands cands' False sel have
        "ls_plan st' = add_context (ls_plan st) best" "remaining_wells st' = remaining'"
        by (auto simp: compile_step_def Let_def)
      with free sub mem show ?thesis by auto
    next
      case (Some s)
      obtain rs' risked where dr: "define_risk s (rnd args (2 * iteration st + 1)) (ls_risk st) best
          = (rs', risked)" by (cases "define_risk s (rnd args (2 * iteration st + 1)) (ls_risk st) best")
      then have "well risked = well best"
        using rk Some by (metis snd_conv)
      moreover from step cands cands' False sel Some dr obtain best' where b':
          "cost_function self risked = Inr best'"
          "ls_plan st' = add_context (ls_plan st) best'" "remaining_wells st' = remaining'"
        by (auto simp: compile_step_def Let_def split: sum.splits)
      ultimately have "well best' = well best" using cf by auto
      with free sub mem b' show ?thesis by auto
    qed
  qed
qed

lemma reachable_precedence:
  assumes ga: "\<forall>m c c'. get_assignments_of (manager_methods args) m c = Inr c' \<longrightarrow> well c' = well c"
      and pr: "\<forall>c. well (profiler self c) = well c"
      and cf: "\<forall>c c'. cost_function self c = Inr c' \<longrightarrow> well c' = well c"
      and rk: "\<forall>s. risk_strategy args = Some s
                 \<longrightarrow> (\<forall>r c. well (apply_risk s r c) = well c)
                     \<and> (\<forall>d r c. well (snd (define_risk s d r c)) = well c)"
  shows "reachable self args s0 st \<Longrightarrow> precedence_inv s0 \<Longrightarrow> precedence_inv st"
proof (induction rule: reachable.induct)
  case start
  then show ?case .
next
  case (iterate st st')
  then have inv: "precedence_inv st" by simp
  from compile_step_appends [OF ga pr cf rk iterate(3)]
  show ?case
  proof
    assume "remaining_wells st' = remaining_wells st \<and> ls_plan st' = ls_plan st"
    with inv show ?thesis by (simp add: precedence_inv_def)
  next
    assume "\<exists>ctx. ls_plan st' = add_context (ls_plan st) ctx
               \<and> cluster_free (remaining_wells st) (well ctx)
               \<and> well ctx \<in> set (remaining_wells st)
               \<and> set (remaining_wells st') \<subseteq> set (remaining_wells st)"
    then obtain ctx where c: "ls_plan st' = add_context (ls_plan st) ctx"
        "cluster_free (remaining_wells st) (well ctx)"
        "set (remaining_wells st') \<subseteq> set (remaining_wells st)" by blast
    show ?thesis
      unfolding precedence_inv_def
    proof
      fix x assume "x \<in> set (well_plans (ls_plan st'))"
      then have "x = ctx \<or> x \<in> set (well_plans (ls_plan st))"
        using c(1) by (auto simp: add_context_def)
      then have "cluster_free (remaining_wells st) (well x)"
        using c(2) inv by (auto simp: precedence_inv_def)
      then show "cluster_free (remaining_wells st') (well x)"
        using c(3) by (rule cluster_free_subset)
    qed
  qed
qed

lemma reachable_plan_order:
  assumes ga: "\<forall>m c c'. get_assignments_of (manager_methods args) m c = Inr c' \<longrightarrow> well c' = well c"
      and pr: "\<forall>c. well (profiler self c) = well c"
      and cf: "\<forall>c c'. cost_function self c = Inr c' \<longrightarrow> well c' = well c"
      and rk: "\<forall>s. risk_strategy args = Some s
                 \<longrightarrow> (\<forall>r c. well (apply_risk s r c) = well c)
                     \<and> (\<forall>d r c. well (snd (define_risk s d r c)) = well c)"
  shows "reachable self args s0 st \<Longrightarrow> plan_order_inv s0 \<Longrightarrow> plan_order_inv st"
proof (induction rule: reachable.induct)
  case start
  then show ?case .
next
  case (iterate st st')
  then have inv: "plan_order_inv st" by simp
  let ?wp = "well_plans (ls_plan st)"
  from compile_step_appends [OF ga pr cf rk iterate(3)]
  show ?case
  proof
    assume "remaining_wells st' = remaining_wells st \<and> ls_plan st' = ls_plan st"
    with inv show ?thesis by (simp add: plan_order_inv_def)
  next
    assume "\<exists>ctx. ls_plan st' = add_context (ls_plan st) ctx
               \<and> cluster_free (remaining_wells st) (well ctx)
               \<and> well ctx \<in> set (remaining_wells st)
               \<and> set (remaining_wells st') \<subseteq> set (remaining_wells st)"
    then obtain ctx where c: "well_plans (ls_plan st') = ?wp @ [ctx]"
        "cluster_free (remaining_wells st) (well ctx)"
        "well ctx \<in> set (remaining_wells st)"
        "set (remaining_wells st') \<subseteq> set (remaining_wells st)"
      by (auto simp: add_context_def)
    show ?thesis
      unfolding plan_order_inv_def c(1)
    proof (intro allI impI)
      fix i assume i: "i < length (?wp @ [ctx])"
      show "cluster_free (map well (drop i (?wp @ [ctx])) @ remaining_wells st')
              (well ((?wp @ [ctx]) ! i))"
      proof (cases "i < length ?wp")
        case True
        then have old: "cluster_free (map well (drop i ?wp) @ remaining_wells st) (well (?wp ! i))"
          using inv by (simp add: plan_order_inv_def)
        have "set (map well (drop i (?wp @ [ctx])) @ remaining_wells st')
              \<subseteq> set (map well (drop i ?wp) @ remaining_wells st)"
          using True c(3,4) by auto
        from cluster_free_subset [OF old this] True show ?thesis by (simp add: nth_append)
      next
        case False
        with i have eq: "i = length ?wp" by simp
        have "set (map well (drop i (?wp @ [ctx])) @ remaining_wells st')
              \<subseteq> set (remaining_wells st)"
          using eq c(3,4) by auto
        from cluster_free_subset [OF c(2) this] eq show ?thesis by simp
      qed
    qed
  qed
qed

lemma reachable_trans:
  "reachable self args b c \<Longrightarrow> reachable self args a b \<Longrightarrow> reachable self args a c"
  by (induction rule: reachable.induct) (auto intro: reachable.iterate)

lemma compile_loop_reachable:
  "compile_loop self args st = Inr p \<Longrightarrow> \<exists>s. reachable self args st s \<and> ls_plan s = p"
proof (induction self args st rule: compile_loop.induct)
  case (1 self args st)
  show ?case
  proof (cases "remaining_wells st \<noteq> [] \<and> current_start st < pb_end self")
    case False
    with 1(2) have "p = ls_plan st" by (subst (asm) compile_loop.simps) auto
    then show ?thesis using reachable.start [of self args st] by blast
  next
    case True
    show ?thesis
    proof (cases "compile_step self args st")
      case (Inl e)
      with 1(2) True show ?thesis by (subst (asm) compile_loop.simps) simp
    next
      case (Inr x)
      show ?thesis
      proof (cases x)
        case Break
        with 1(2) True Inr have "p = ls_plan st" by (subst (asm) compile_loop.simps) simp
        then show ?thesis using reachable.start [of self args st] by blast
      next
        case (Continue st')
        with 1(2) True Inr have "compile_loop self args st' = Inr p"
          by (subst (asm) compile_loop.simps) simp
        from 1(1) [OF True Inr Continue this]
        obtain s where s: "reachable self args st' s" "ls_plan s = p" by blast
        have "reachable self args st st'"
          using reachable.iterate [OF reachable.start True] Inr Continue by simp
        from reachable_trans [OF s(1) this] s(2) show ?thesis by blast
      qed
    qed
  qed
qed

text \<open>
  C1. For collaborators that leave the well of a context as it is (the team manager, the
  production profile, the cost function and the risk strategy), in every run of
  \<open>PlanBuilder.compile\<close>: a context is built for a well \<open>W\<close> only when no well of the
  remaining pool is in the cluster that \<open>W\<close> depends on; an iteration that appends a
  context to the plan appends one whose well has no well of its dependency cluster in the
  pool of that iteration; in every state that the loop reaches from an empty plan, no
  well of the pool is in the dependency cluster of a well of the plan; and in the plan that
  \<open>compile\<close> returns, no well of the dependency cluster of a well \<open>W\<close> stands at or after
  the position of \<open>W\<close>.
\<close>

theorem cluster_precedence:
  assumes ga: "\<forall>m c c'. get_assignments_of (manager_methods args) m c = Inr c' \<longrightarrow> well c' = well c"
      and pr: "\<forall>c. well (profiler self c) = well c"
      and cf: "\<forall>c c'. cost_function self c = Inr c' \<longrightarrow> well c' = well c"
      and rk: "\<forall>s. risk_strategy args = Some s
                 \<longrightarrow> (\<forall>r c. well (apply_risk s r c) = well c)
                     \<and> (\<forall>d r c. well (snd (define_risk s d r c)) = well c)"
  shows "(build_context self (manager_methods args) m pool w t = Inr (Some ctx)
          \<longrightarrow> well ctx = w
              \<and> (\<forall>C. depend_from_cluster w = Some C \<longrightarrow> (\<forall>w' \<in> set pool. cluster w' \<noteq> C)))
       \<and> (compile_step self args st = Inr (Continue st') \<and> ls_plan st' \<noteq> ls_plan st
          \<longrightarrow> (\<exists>c. well_plans (ls_plan st') = well_plans (ls_plan st) @ [c]
                 \<and> (\<forall>C. depend_from_cluster (well c) = Some C
                        \<longrightarrow> (\<forall>w' \<in> set (remaining_wells st). cluster w' \<noteq> C))))
       \<and> (reachable self args s0 s \<and> well_plans (ls_plan s0) = []
          \<longrightarrow> (\<forall>c \<in> set (well_plans (ls_plan s)). \<forall>C. depend_from_cluster (well c) = Some C
                 \<longrightarrow> (\<forall>w' \<in> set (remaining_wells s). cluster w' \<noteq> C)))
       \<and> (compile self args pid wells manager rs = Inr p
          \<longrightarrow> (\<forall>i j C. i \<le> j \<and> j < length (well_plans p)
                 \<and> depend_from_cluster (well (well_plans p ! i)) = Some C
                 \<longrightarrow> cluster (well (well_plans p ! j)) \<noteq> C))"
proof -
  have a: "well ctx = w
        \<and> (\<forall>C. depend_from_cluster w = Some C \<longrightarrow> (\<forall>w' \<in> set pool. cluster w' \<noteq> C))"
    if "build_context self (manager_methods args) m pool w t = Inr (Some ctx)"
    using build_context_finished [OF ga pr that]
    by (simp add: is_cluster_finished_free cluster_free_def)
  have b: "\<exists>c. well_plans (ls_plan st') = well_plans (ls_plan st) @ [c]
           \<and> (\<forall>C. depend_from_cluster (well c) = Some C
                  \<longrightarrow> (\<forall>w' \<in> set (remaining_wells st). cluster w' \<noteq> C))"
    if "compile_step self args st = Inr (Continue st')" and "ls_plan st' \<noteq> ls_plan st"
    using compile_step_appends [OF ga pr cf rk that(1)] that(2)
    by (auto simp: add_context_def cluster_free_def)
  have c: "\<forall>c \<in> set (well_plans (ls_plan s)). \<forall>C. depend_from_cluster (well c) = Some C
                 \<longrightarrow> (\<forall>w' \<in> set (remaining_wells s). cluster w' \<noteq> C)"
    if "reachable self args s0 s" and "well_plans (ls_plan s0) = []"
  proof -
    have "precedence_inv s0" using that(2) by (simp add: precedence_inv_def)
    with reachable_precedence [OF ga pr cf rk that(1)] have "precedence_inv s" by blast
    then show ?thesis by (simp add: precedence_inv_def cluster_free_def)
  qed
  have d: "cluster (well (well_plans p ! j)) \<noteq> C"
    if run: "compile self args pid wells manager rs = Inr p"
      and ij: "i \<le> j" "j < length (well_plans p)"
      and dep: "depend_from_cluster (well (well_plans p ! i)) = Some C" for i j C
  proof -
    let ?s0 = "\<lparr>current_start = pb_start self, remaining_wells = wells,
        ls_plan = \<lparr>plan_id = pid, well_plans = []\<rparr>, ls_manager = manager, ls_risk = rs,
        iteration = 0\<rparr>"
    from run obtain s where s: "reachable self args ?s0 s" "ls_plan s = p"
      unfolding compile_def using compile_loop_reachable by blast
    have "plan_order_inv ?s0" by (simp add: plan_order_inv_def)
    with reachable_plan_order [OF ga pr cf rk s(1)] have "plan_order_inv s" by blast
    then have free: "cluster_free (map well (drop i (well_plans p)) @ remaining_wells s)
                       (well (well_plans p ! i))"
      using ij s(2) by (simp add: plan_order_inv_def)
    have "well_plans p ! j \<in> set (drop i (well_plans p))"
      using ij by (auto simp: in_set_conv_nth intro!: exI [of _ "j - i"])
    then have "well (well_plans p ! j) \<in> set (map well (drop i (well_plans p)) @ remaining_wells s)"
      by simp
    with free dep show ?thesis unfolding cluster_free_def by blast
  qed
  from a b c d show ?thesis by blast
qed

lemmas step_defs = compile_step_def build_contexts_def
  build_context_def is_cluster_finished_def filter_candidates_def select_best_candidate_def
  py_min_key_def py_remove_def add_context_def constraints_violated_def date_or_min_def
  next_period_start_def SimpleInfrastructure_get_ready_date_def TeamManager_methods_def
  ex_builder_def ex_args_def ex_manager0_def well_B_def ex_state0_def

lemma ex_first_step:
  "\<exists>s. compile_step ex_builder (ex_args r) (ex_state0 [well_B, well_A]) = Inr (Continue s)
       \<and> remaining_wells s = [well_B]
       \<and> map (well_name \<circ> well) (well_plans (ls_plan s)) = [''W1'']"
  by (simp add: step_defs get_assignments_defs ex_manager_defs calendar_defs)

lemma ex_build_context_B:
  "build_context ex_builder TeamManager_methods ex_manager0 [well_B, well_A] well_B
     (datetime_jan1 2025) = Inr None"
  "\<exists>c. build_context ex_builder TeamManager_methods ex_manager0 [well_B] well_B
     (datetime_jan1 2025) = Inr (Some c)"
  by (simp_all add: step_defs get_assignments_defs ex_manager_defs calendar_defs)

theorem cluster_precedence_witness:
  "build_context ex_builder TeamManager_methods ex_manager0 [well_B, well_A] well_B
     (datetime_jan1 2025) = Inr None
   \<and> (\<exists>c. build_context ex_builder TeamManager_methods ex_manager0 [well_B] well_B
          (datetime_jan1 2025) = Inr (Some c)
        \<and> well c = well_B \<and> depend_from_cluster well_B = Some ''A''
        \<and> (\<forall>w' \<in> set [well_B]. cluster w' \<noteq> ''A''))
   \<and> (\<exists>s. reachable ex_builder (ex_args (\<lambda>n. 0)) (ex_state0 [well_B, well_A]) s
        \<and> remaining_wells s = [well_B]
        \<and> map (well_name \<circ> well) (well_plans (ls_plan s)) = [''W1'']
        \<and> (\<forall>c \<in> set (well_plans (ls_plan s)). \<forall>C. depend_from_cluster (well c) = Some C
              \<longrightarrow> (\<forall>w' \<in> set (remaining_wells s). cluster w' \<noteq> C)))
   \<and> (\<exists>p. compile ex_builder (ex_args (\<lambda>n. 0)) 0 [well_B, well_A] ex_manager0 () = Inr p
        \<and> map (well_name \<circ> well) (well_plans p) = [''W1'', ''W2'']
        \<and> (\<forall>i j C. i \<le> j \<and> j < length (well_plans p)
                 \<and> depend_from_cluster (well (well_plans p ! i)) = Some C
                 \<longrightarrow> cluster (well (well_plans p ! j)) \<noteq> C))"
proof -
  let ?args = "ex_args (\<lambda>n. 0) :: (TeamManager, unit) compile_args"
  let ?s0 = "ex_state0 [well_B, well_A]"
  have mm: "manager_methods ?args = TeamManager_methods" by (simp add: ex_args_def)
  have ga: "\<forall>m c c'. get_assignments_of (manager_methods ?args) m c = Inr c' \<longrightarrow> well c' = well c"
    by (auto simp: ex_args_def TeamManager_methods_def dest: get_assignments_well)
  have pr: "\<forall>c. well (profiler ex_builder c) = well c" by (simp add: ex_builder_def)
  have cf: "\<forall>c c'. cost_function ex_builder c = Inr c' \<longrightarrow> well c' = well c"
    by (auto simp: ex_builder_def)
  have rk: "\<forall>s. risk_strategy ?args = Some s
              \<longrightarrow> (\<forall>r c. well (apply_risk s r c) = well c)
                  \<and> (\<forall>d r c. well (snd (define_risk s d r c)) = well c)"
    by (simp add: ex_args_def)
  note cp = cluster_precedence [OF ga pr cf rk]
  obtain c where c: "build_context ex_builder TeamManager_methods ex_manager0 [well_B] well_B
     (datetime_jan1 2025) = Inr (Some c)"
    using ex_build_context_B(2) by blast
  have c2: "well c = well_B \<and> (\<forall>w' \<in> set [well_B]. cluster w' \<noteq> ''A'')"
    using cp [of ex_manager0 "[well_B]" well_B "datetime_jan1 2025" c] c mm
    by (simp add: well_B_def)
  obtain s where s: "compile_step ex_builder ?args ?s0 = Inr (Continue s)"
      "remaining_wells s = [well_B]"
      "map (well_name \<circ> well) (well_plans (ls_plan s)) = [''W1'']"
    using ex_first_step [of "\<lambda>n. 0"] by auto
  have guard: "remaining_wells ?s0 \<noteq> [] \<and> current_start ?s0 < pb_end ex_builder"
    by (simp add: ex_state0_def ex_builder_def calendar_defs)
  have r: "reachable ex_builder ?args ?s0 s"
    by (rule reachable.iterate [OF reachable.start guard s(1)])
  have e: "well_plans (ls_plan ?s0) = []" by (simp add: ex_state0_def)
  have inv: "\<forall>c \<in> set (well_plans (ls_plan s)). \<forall>C. depend_from_cluster (well c) = Some C
              \<longrightarrow> (\<forall>w' \<in> set (remaining_wells s). cluster w' \<noteq> C)"
    using cp [of _ _ _ _ _ _ _ ?s0 s] r e by blast
  have d: "depend_from_cluster well_B = Some ''A''" by (simp add: well_B_def)
  have p2: "\<exists>c. build_context ex_builder TeamManager_methods ex_manager0 [well_B] well_B
          (datetime_jan1 2025) = Inr (Some c)
        \<and> well c = well_B \<and> depend_from_cluster well_B = Some ''A''
        \<and> (\<forall>w' \<in> set [well_B]. cluster w' \<noteq> ''A'')"
    using c c2 d by (intro exI [of _ c] conjI) simp_all
  have p3: "\<exists>s. reachable ex_builder ?args ?s0 s
        \<and> remaining_wells s = [well_B]
        \<and> map (well_name \<circ> well) (well_plans (ls_plan s)) = [''W1'']
        \<and> (\<forall>c \<in> set (well_plans (ls_plan s)). \<forall>C. depend_from_cluster (well c) = Some C
              \<longrightarrow> (\<forall>w' \<in> set (remaining_wells s). cluster w' \<noteq> C))"
    using r s(2,3) inv by (intro exI [of _ s] conjI)
  obtain p where p: "compile ex_builder ?args 0 [well_B, well_A] ex_manager0 () = Inr p"
      "map (well_name \<circ> well) (well_plans p) = [''W1'', ''W2'']"
    using ex_compile [of "\<lambda>n. 0"] by auto
  have "\<forall>i j C. i \<le> j \<and> j < length (well_plans p)
                 \<and> depend_from_cluster (well (well_plans p ! i)) = Some C
                 \<longrightarrow> cluster (well (well_plans p ! j)) \<noteq> C"
    using cp [of _ _ _ _ _ _ _ _ _ 0 "[well_B, well_A]" ex_manager0 "()" p] p(1) by blast
  with p have p4: "\<exists>p. compile ex_builder ?args 0 [well_B, well_A] ex_manager0 () = Inr p
        \<and> map (well_name \<circ> well) (well_plans p) = [''W1'', ''W2'']
        \<and> (\<forall>i j C. i \<le> j \<and> j < length (well_plans p)
                 \<and> depend_from_cluster (well (well_plans p ! i)) = Some C
                 \<longrightarrow> cluster (well (well_plans p ! j)) \<noteq> C)"
    by (intro exI [of _ p] conjI)
  show ?thesis
    using ex_build_context_B(1) p2 p3 p4 by (intro conjI)
qed

section \<open>Periods without candidates\<close>









end
